theory Spec2Isabelle
  imports Main "HOL-Library.Multiset" "HOL-Library.Sublist"
begin

section \<open>JavaScript values\<close>

text \<open>
  The values the engine handles: what \<open>$element.val()\<close> and \<open>GroupField.getValue()\<close>
  return, the requirement of a rule, the reason of a rejection. Arrays and objects carry
  an identity (a \<open>nat\<close>), because \<open>===\<close> compares them by reference. There are no
  numbers among them: what the engine reads from the document are strings and arrays of
  strings, and a numeric requirement is its decimal string. \<open>JError m\<close> is
  an \<open>Error\<close> instance with message \<open>m\<close>. A string is held as bytes: each of its
  UTF-16 code units is written as the one, two or three bytes of its UTF-8 form, so that
  an ASCII character is one byte and every string of the engine has one representation.
  The list of an object holds its own enumerable properties in the order
  \<open>Object.keys\<close> lists them, each key once.
\<close>

datatype jsval =
    JUndef
  | JNull
  | JBool bool
  | JStr string
  | JArr nat "jsval list"
  | JObj nat "(string \<times> jsval) list"
  | JError string

fun truthy :: "jsval \<Rightarrow> bool" where
  "truthy JUndef = False"
| "truthy JNull = False"
| "truthy (JBool b) = b"
| "truthy (JStr s) = (s \<noteq> [])"
| "truthy _ = True"

fun isArray :: "jsval \<Rightarrow> bool" where
  "isArray (JArr _ _) = True"
| "isArray _ = False"

text \<open>\<open>a === b\<close>: by value on primitives, by reference on arrays, objects and errors
  (an \<open>Error\<close> instance is identified with its message here).\<close>

fun strict_eq :: "jsval \<Rightarrow> jsval \<Rightarrow> bool" where
  "strict_eq (JArr r _) (JArr r' _) = (r = r')"
| "strict_eq (JObj r _) (JObj r' _) = (r = r')"
| "strict_eq JUndef JUndef = True"
| "strict_eq JNull JNull = True"
| "strict_eq (JBool a) (JBool b) = (a = b)"
| "strict_eq (JStr a) (JStr b) = (a = b)"
| "strict_eq (JError a) (JError b) = (a = b)"
| "strict_eq _ _ = False"

text \<open>\<open>Utils.arraysEqual\<close>: both arrays, same length, \<open>a.every((v, i) => v === b[i])\<close>.\<close>

fun arraysEqual :: "jsval \<Rightarrow> jsval \<Rightarrow> bool" where
  "arraysEqual (JArr _ xs) (JArr _ ys) =
     (length xs = length ys \<and> list_all (\<lambda>(v, w). strict_eq v w) (zip xs ys))"
| "arraysEqual _ _ = False"

definition areEquals :: "jsval \<Rightarrow> jsval \<Rightarrow> bool" where
  "areEquals a b = (if isArray a \<and> isArray b then arraysEqual a b else strict_eq a b)"

text \<open>\<open>Utils.cloneValue\<close>: a shallow copy. The copy of an array is a new array (identity
  \<open>fresh\<close>) holding the same elements, inner arrays included.\<close>

fun cloneValue :: "nat \<Rightarrow> jsval \<Rightarrow> jsval" where
  "cloneValue fresh (JArr _ xs) = JArr fresh xs"
| "cloneValue fresh (JObj _ kvs) = JObj fresh kvs"
| "cloneValue fresh v = v"

text \<open>Deep equality, as the specification words it: the same content at every depth,
  whatever the identities. It is the comparison the cache is specified with.\<close>

fun strip_ids :: "jsval \<Rightarrow> jsval" where
  "strip_ids (JArr _ xs) = JArr 0 (map strip_ids xs)"
| "strip_ids (JObj _ kvs) = JObj 0 (map (\<lambda>(k, v). (k, strip_ids v)) kvs)"
| "strip_ids v = v"

definition deep_equal :: "jsval \<Rightarrow> jsval \<Rightarrow> bool" where
  "deep_equal a b = (strip_ids a = strip_ids b)"

subsection \<open>Strings: \<open>toString\<close>, \<open>trim\<close>, \<open>Utils.size\<close>, \<open>Utils.empty\<close>\<close>

fun join_comma :: "string list \<Rightarrow> string" where
  "join_comma [] = []"
| "join_comma [s] = s"
| "join_comma (s # t # ss) = s @ '','' @ join_comma (t # ss)"

text \<open>\<open>value.toString()\<close> for a value that is neither \<open>null\<close> nor \<open>undefined\<close>;
  \<open>Array.prototype.join\<close> writes those two as the empty string inside an array.\<close>

fun toString :: "jsval \<Rightarrow> string" where
  "toString JUndef = ''undefined''"
| "toString JNull = ''null''"
| "toString (JBool b) = (if b then ''true'' else ''false'')"
| "toString (JStr s) = s"
| "toString (JArr _ xs) =
     join_comma (map (\<lambda>x. if x = JUndef \<or> x = JNull then [] else toString x) xs)"
| "toString (JObj _ _) = ''[object Object]''"
| "toString (JError m) = (if m = [] then ''Error'' else ''Error: '' @ m)"

text \<open>
  The white space \<open>String.prototype.trim\<close> strips from both ends: the characters
  U+0009 to U+000D, U+0020, U+00A0, U+1680, U+2000 to U+200A, U+2028, U+2029, U+202F,
  U+205F, U+3000 and U+FEFF, each as the bytes that stand for it in a string.
\<close>

definition whitespace :: "string list" where
  "whitespace =
     [[CHR 0x09], [CHR 0x0A], [CHR 0x0B], [CHR 0x0C], [CHR 0x0D], [CHR 0x20],
      [CHR 0xC2, CHR 0xA0], [CHR 0xE1, CHR 0x9A, CHR 0x80],
      [CHR 0xE2, CHR 0x80, CHR 0x80], [CHR 0xE2, CHR 0x80, CHR 0x81],
      [CHR 0xE2, CHR 0x80, CHR 0x82], [CHR 0xE2, CHR 0x80, CHR 0x83],
      [CHR 0xE2, CHR 0x80, CHR 0x84], [CHR 0xE2, CHR 0x80, CHR 0x85],
      [CHR 0xE2, CHR 0x80, CHR 0x86], [CHR 0xE2, CHR 0x80, CHR 0x87],
      [CHR 0xE2, CHR 0x80, CHR 0x88], [CHR 0xE2, CHR 0x80, CHR 0x89],
      [CHR 0xE2, CHR 0x80, CHR 0x8A], [CHR 0xE2, CHR 0x80, CHR 0xA8],
      [CHR 0xE2, CHR 0x80, CHR 0xA9], [CHR 0xE2, CHR 0x80, CHR 0xAF],
      [CHR 0xE2, CHR 0x81, CHR 0x9F], [CHR 0xE3, CHR 0x80, CHR 0x80],
      [CHR 0xEF, CHR 0xBB, CHR 0xBF]]"

text \<open>Stripping from the front of a string, for as long as one of the given characters
  starts it.\<close>

function strip :: "string list \<Rightarrow> string \<Rightarrow> string" where
  "strip ws s =
     (case find (\<lambda>w. w \<noteq> [] \<and> prefix w s) ws of
        None \<Rightarrow> s
      | Some w \<Rightarrow> strip ws (drop (length w) s))"
  by pat_completeness auto
termination
  by (relation "measure (\<lambda>(ws, s). length s)") (auto simp: find_Some_iff prefix_def)

declare strip.simps [simp del]

definition trim :: "string \<Rightarrow> string" where
  "trim s = rev (strip (map rev whitespace) (rev (strip whitespace s)))"

text \<open>\<open>Utils.size\<close>. Its result is only ever tested for truthiness: an array gives the
  boolean \<open>length > 0\<close> (1 or 0 here), an object its number of keys, a string its length
  (counted in bytes here, and zero exactly when the string is empty).\<close>

fun size_js :: "jsval \<Rightarrow> nat" where
  "size_js (JArr _ xs) = (if length xs > 0 then 1 else 0)"
| "size_js (JObj _ kvs) = length kvs"
| "size_js (JStr s) = length s"
| "size_js _ = 0"

text \<open>\<open>Utils.empty\<close>: \<open>!this.size(value?.toString().trim())\<close>. The optional chain
  yields \<open>undefined\<close> for \<open>null\<close> and \<open>undefined\<close>.\<close>

definition empty_js :: "jsval \<Rightarrow> bool" where
  "empty_js v =
     (size_js (if v = JUndef \<or> v = JNull then JUndef else JStr (trim (toString v))) = 0)"

subsection \<open>\<open>Utils.formatMessage\<close>\<close>

text \<open>The first match of \<open>/%s/i\<close> in a string: what precedes it, the match, what follows.\<close>

fun split_at_ps :: "string \<Rightarrow> (string \<times> string \<times> string) option" where
  "split_at_ps (a # b # cs) =
     (if a = CHR ''%'' \<and> (b = CHR ''s'' \<or> b = CHR ''S'') then Some ([], [a, b], cs)
      else map_option (\<lambda>(pre, m, post). (a # pre, m, post)) (split_at_ps (b # cs)))"
| "split_at_ps _ = None"

text \<open>ECMAScript's GetSubstitution for a pattern without capture groups: \<open>$$\<close>, \<open>$&\<close>,
  \<open>$`\<close> and \<open>$'\<close> are expanded in the replacement string, everything else is literal.\<close>

fun getSubstitution :: "string \<Rightarrow> string \<Rightarrow> string \<Rightarrow> string \<Rightarrow> string" where
  "getSubstitution m pre post (a # b # cs) =
     (if a = CHR ''$'' \<and> b = CHR ''$'' then CHR ''$'' # getSubstitution m pre post cs
      else if a = CHR ''$'' \<and> b = CHR ''&'' then m @ getSubstitution m pre post cs
      else if a = CHR ''$'' \<and> b = CHR 0x60 then pre @ getSubstitution m pre post cs
      else if a = CHR ''$'' \<and> b = CHR 0x27 then post @ getSubstitution m pre post cs
      else a # getSubstitution m pre post (b # cs))"
| "getSubstitution m pre post cs = cs"

text \<open>\<open>string.replace(/%s/i, parameters)\<close>: the first placeholder only.\<close>

definition replace_ps :: "string \<Rightarrow> string \<Rightarrow> string" where
  "replace_ps s repl =
     (case split_at_ps s of
        None \<Rightarrow> s
      | Some (pre, m, post) \<Rightarrow> pre @ getSubstitution m pre post repl @ post)"

text \<open>
  \<open>formatMessage(string, parameters)\<close>: \<open>undefined\<close> for a falsy template; for an object
  (an array, a plain object, \<open>null\<close>) one call per enumerable property, in order, each on
  the result of the one before; otherwise one replacement, or \<open>''\<close> when the template is
  not a string.
\<close>

fun formatMessage :: "jsval \<Rightarrow> jsval \<Rightarrow> jsval"
  and formatEach :: "jsval \<Rightarrow> jsval list \<Rightarrow> jsval"
  and formatProps :: "jsval \<Rightarrow> (string \<times> jsval) list \<Rightarrow> jsval" where
  "formatMessage s p =
     (if \<not> truthy s then JUndef
      else case p of
          JArr _ ps \<Rightarrow> formatEach s ps
        | JObj _ kvs \<Rightarrow> formatProps s kvs
        | JNull \<Rightarrow> s
        | JError _ \<Rightarrow> s
        | _ \<Rightarrow> (case s of JStr t \<Rightarrow> JStr (replace_ps t (toString p)) | _ \<Rightarrow> JStr []))"
| "formatEach s [] = s"
| "formatEach s (p # ps) = formatEach (formatMessage s p) ps"
| "formatProps s [] = s"
| "formatProps s ((k, p) # kvs) = formatProps (formatMessage s p) kvs"

section \<open>Validators\<close>

text \<open>
  A call either returns or throws; a promise, once settled, is fulfilled with a value or
  rejected with a reason. Reasons are the raw value a predicate or a transport rejected
  with, a \<open>ValidationError\<close> (\<open>assert\<close>, \<open>errorMessage\<close>), the field itself (by its
  \<open>__id__\<close>), or the array of reasons \<open>Utils.all\<close> and \<open>Utils.runSequential\<close> reject with.
\<close>

datatype 'a result = Returned 'a | Thrown jsval

datatype reason =
    Raw jsval
  | ValidationError string jsval
  | FieldRef string
  | Errors "reason list"

datatype 'a settle = Fulfilled 'a | Rejected reason

datatype log = ConsoleError jsval | ConsoleWarn jsval

text \<open>What calling a predicate \<open>validateFn\<close> does: it returns a plain value (read for
  truthiness), throws, or returns a thenable that resolves or rejects.\<close>

datatype fn_result =
    Sync jsval
  | Throws jsval
  | ThenResolves jsval
  | ThenRejects jsval

text \<open>\<open>class Validator\<close>. The predicate receives the argument list
  \<open>[value, ...requirements]\<close>; the \<open>this\<close> it is applied to is not passed on (the
  built-in predicates are arrow functions and never see it).\<close>

record validator =
  name :: string
  validateFn :: "(jsval list \<Rightarrow> fn_result) option"
  message :: string
  group :: bool
  priority :: int

definition js_or :: "jsval \<Rightarrow> jsval \<Rightarrow> jsval" where
  "js_or a b = (if truthy a then a else b)"

text \<open>\<open>v?.[k]\<close>, for the property reads the engine makes (\<open>message\<close>, \<open>url\<close>, \<open>extra\<close>,
  \<open>successMessage\<close>, \<open>errorMessage\<close>).\<close>

fun get_prop :: "string \<Rightarrow> jsval \<Rightarrow> jsval" where
  "get_prop k (JObj _ kvs) = (case map_of kvs k of Some v \<Rightarrow> v | None \<Rightarrow> JUndef)"
| "get_prop k (JError m) = (if k = ''message'' then JStr m else JUndef)"
| "get_prop k _ = JUndef"

text \<open>\<open>Validator._reject\<close>: \<open>reason?.message || reason || this.message\<close>, formatted with
  the requirements, in a \<open>ValidationError\<close> named after the validator.\<close>

definition reject :: "validator \<Rightarrow> jsval \<Rightarrow> jsval \<Rightarrow> reason" where
  "reject v rsn requirements =
     ValidationError (name v)
       (formatMessage (js_or (js_or (get_prop ''message'' rsn) rsn) (JStr (message v))) requirements)"

text \<open>\<open>Validator.validate(value, requirements, field)\<close>. Of the field it reads
  \<open>customErrorMessage\<close> only. A missing predicate throws before the \<open>try\<close>; what the
  predicate throws is logged with \<open>console.error\<close> and thrown again.\<close>

definition validate ::
  "validator \<Rightarrow> jsval \<Rightarrow> jsval \<Rightarrow> jsval \<Rightarrow> jsval settle result \<times> log list" where
  "validate v val requirements customErrorMessage =
     (case validateFn v of
        None \<Rightarrow>
          (Thrown (JError (''Fiddo Validator:'' @ name v @ '' : no validate function defined'')), [])
      | Some fn \<Rightarrow>
          (case fn (case requirements of JArr _ rs \<Rightarrow> val # rs | _ \<Rightarrow> [val, requirements]) of
             Throws err \<Rightarrow> (Thrown err, [ConsoleError err])
           | ThenResolves x \<Rightarrow> (Returned (Fulfilled x), [])
           | ThenRejects rsn \<Rightarrow> (Returned (Rejected (reject v rsn requirements)), [])
           | Sync r \<Rightarrow>
               if truthy r then (Returned (Fulfilled JUndef), [])
               else (Returned (Rejected
                      (reject v (js_or customErrorMessage (JStr (message v))) requirements)), [])))"

subsection \<open>Remote validators\<close>

text \<open>The request handed to \<open>$.ajax\<close>, and what comes back: \<open>done(data, textStatus,
  jqXHR)\<close> with the status code, or \<open>fail(jqXHR, textStatus, errorThrown)\<close>.\<close>

record request =
  rq_url :: jsval
  rq_method :: string
  rq_data :: "(string \<times> jsval) list"

datatype ajax_result =
    Done jsval string nat
  | Fail string jsval

text \<open>\<open>class RemoteValidator\<close>: the fields the constructor adds to a validator.\<close>

record remote =
  r_name :: string
  r_message :: string
  r_group :: bool
  r_priority :: int
  url :: jsval
  r_method :: string
  dataKey :: string
  isValidFn :: "jsval \<Rightarrow> string \<Rightarrow> nat \<Rightarrow> jsval result"

text \<open>The specification object given to \<open>addValidator(name, spec)\<close>; \<open>None\<close> is a key the
  object does not have. It may hold a \<open>name\<close> of its own.\<close>

record vspec =
  s_name :: "string option"
  s_validateFn :: "(jsval list \<Rightarrow> fn_result) option"
  s_message :: "string option"
  s_group :: bool
  s_priority :: "int option"
  s_remote :: bool
  s_url :: "string option"
  s_method :: "string option"
  s_dataKey :: "string option"
  s_isValidFn :: "(jsval \<Rightarrow> string \<Rightarrow> nat \<Rightarrow> jsval result) option"

definition defaultMessage :: string where
  "defaultMessage = ''This value seems to be invalid.''"

text \<open>The string entries of \<open>MessagesDefaults\<close> (the \<open>type\<close> entry is an object and
  is kept apart).\<close>

definition MessagesDefaults :: "(string \<times> string) list" where
  "MessagesDefaults =
     [(''defaultMessage'', ''This value seems to be invalid.''),
      (''notblank'', ''This value should not be blank.''),
      (''required'', ''This value is required.''),
      (''minrequired'', ''At least %s input(s) are required.''),
      (''pattern'', ''This value seems to be invalid.''),
      (''min'', ''This value should be greater than or equal to %s.''),
      (''max'', ''This value should be lower than or equal to %s.''),
      (''range'', ''This value should be between %s and %s.''),
      (''minlength'', ''This value is too short. It should have %s characters or more.''),
      (''maxlength'', ''This value is too long. It should have %s characters or fewer.''),
      (''length'', ''This value length is invalid. It should be between %s and %s characters long.''),
      (''mincheck'', ''You must select at least %s choices.''),
      (''maxcheck'', ''You must select %s choices or fewer.''),
      (''check'', ''You must select between %s and %s choices.''),
      (''equalto'', ''This value should be the same.''),
      (''notequalto'', ''This value should be different.''),
      (''gt'', ''This value should be greater than %s.''),
      (''gte'', ''This value should be greater than or equal to %s.''),
      (''lt'', ''This value should be less than %s.''),
      (''lte'', ''This value should be less than or equal to %s.''),
      (''euvatin'', ''It's not a valid VAT Identification Number.''),
      (''money'', ''Please enter a valid amount greater than zero''),
      (''date'', ''The entered date is invalid (expected format: %s)''),
      (''datemin'', ''The date cannot be earlier than %s''),
      (''datemax'', ''The date cannot be later than %s''),
      (''datepast'', ''The date cannot be in the future''),
      (''datefuture'', ''The date cannot be in the past'')]"

text \<open>\<open>new Validator({name, validateFn, message, group, priority = 0})\<close>, with
  \<open>message || Messages[name] || 'Validation failed'\<close> read in the table \<open>msgs\<close>, for a
  name that \<open>Object.prototype\<close> does not have.\<close>

definition Validator ::
  "(string \<times> string) list \<Rightarrow> string \<Rightarrow> (jsval list \<Rightarrow> fn_result) option \<Rightarrow> string option \<Rightarrow>
     bool \<Rightarrow> int option \<Rightarrow> validator" where
  "Validator msgs n fn msg grp prio =
     \<lparr> name = n,
       validateFn = fn,
       message =
         (case msg of
            Some m \<Rightarrow> if m \<noteq> [] then m
                      else (case map_of msgs n of
                              Some t \<Rightarrow> if t \<noteq> [] then t else ''Validation failed''
                            | None \<Rightarrow> ''Validation failed'')
          | None \<Rightarrow> (case map_of msgs n of
                       Some t \<Rightarrow> if t \<noteq> [] then t else ''Validation failed''
                     | None \<Rightarrow> ''Validation failed'')),
       group = grp,
       priority = (case prio of Some p \<Rightarrow> p | None \<Rightarrow> 0) \<rparr>"

text \<open>\<open>RemoteValidator.defaultIsValidFn\<close>: any 2xx status.\<close>

definition defaultIsValidFn :: "jsval \<Rightarrow> string \<Rightarrow> nat \<Rightarrow> jsval result" where
  "defaultIsValidFn data textStatus status = Returned (JBool (200 \<le> status \<and> status < 300))"

text \<open>\<open>new RemoteValidator({name, ...spec})\<close> with the constructor's defaults:
  \<open>method = 'POST'\<close>, \<open>dataKey = 'value'\<close>, \<open>isValidFn = null\<close>, \<open>priority = 10\<close>.\<close>

definition RemoteValidator :: "(string \<times> string) list \<Rightarrow> string \<Rightarrow> vspec \<Rightarrow> remote" where
  "RemoteValidator msgs n spec =
     \<lparr> r_name = n,
       r_message = message (Validator msgs n None (s_message spec) (s_group spec) None),
       r_group = s_group spec,
       r_priority = (case s_priority spec of Some p \<Rightarrow> p | None \<Rightarrow> 10),
       url = (case s_url spec of Some u \<Rightarrow> JStr u | None \<Rightarrow> JUndef),
       r_method = (case s_method spec of Some m \<Rightarrow> m | None \<Rightarrow> ''POST''),
       dataKey = (case s_dataKey spec of Some k \<Rightarrow> k | None \<Rightarrow> ''value''),
       isValidFn = (case s_isValidFn spec of Some f \<Rightarrow> f | None \<Rightarrow> defaultIsValidFn) \<rparr>"

text \<open>
  Property keys. An object lists its own keys with the array indices first, in ascending
  order, and the other keys after them in the order of their creation. An array index
  is the canonical decimal numeral of a number below \<open>2\<^sup>3\<^sup>2 - 1\<close>; \<open>dec\<close> writes a
  number as that numeral.
\<close>

definition is_digit :: "char \<Rightarrow> bool" where
  "is_digit c = (48 \<le> (of_char c :: nat) \<and> (of_char c :: nat) \<le> 57)"

function dec :: "nat \<Rightarrow> string" where
  "dec n = (if n < 10 then [char_of (48 + n)] else dec (n div 10) @ [char_of (48 + n mod 10)])"
  by pat_completeness auto
termination
  by (relation "measure id") auto

declare dec.simps [simp del]

definition numeral_value :: "string \<Rightarrow> nat" where
  "numeral_value s = foldl (\<lambda>n c. 10 * n + ((of_char c :: nat) - 48)) 0 s"

definition array_index :: "string \<Rightarrow> nat option" where
  "array_index k =
     (if k \<noteq> [] \<and> list_all is_digit k \<and> (k = ''0'' \<or> hd k \<noteq> CHR ''0'')
         \<and> numeral_value k < 2 ^ 32 - 1
      then Some (numeral_value k) else None)"

definition listed_before :: "string \<Rightarrow> string \<Rightarrow> bool" where
  "listed_before k k' =
     (case array_index k of
        None \<Rightarrow> False
      | Some i \<Rightarrow> (case array_index k' of None \<Rightarrow> True | Some j \<Rightarrow> i < j))"

text \<open>Defining the property \<open>k\<close> of an object: a key already there keeps its place
  and takes the new value, a new key takes the place the order above gives it.\<close>

fun obj_set :: "(string \<times> jsval) list \<Rightarrow> string \<Rightarrow> jsval \<Rightarrow> (string \<times> jsval) list" where
  "obj_set [] k v = [(k, v)]"
| "obj_set ((k', v') # kvs) k v =
     (if k' = k then (k, v) # kvs
      else if listed_before k k' \<and> map_of kvs k = None then (k, v) # (k', v') # kvs
      else (k', v') # obj_set kvs k v)"

text \<open>An object literal \<open>{ ...obj, ...extra }\<close>: the properties of \<open>extra\<close> are
  defined one after the other on a copy of \<open>obj\<close>.\<close>

definition spread :: "(string \<times> jsval) list \<Rightarrow> (string \<times> jsval) list \<Rightarrow> (string \<times> jsval) list" where
  "spread obj extra = fold (\<lambda>(k, v) acc. obj_set acc k v) extra obj"

text \<open>The code units of a string: a unit is one, two or three bytes long, which its
  first byte tells.\<close>

definition unit_length :: "char \<Rightarrow> nat" where
  "unit_length a =
     (if 0xC0 \<le> (of_char a :: nat) \<and> (of_char a :: nat) < 0xE0 then 2
      else if 0xE0 \<le> (of_char a :: nat) \<and> (of_char a :: nat) < 0xF0 then 3 else 1)"

fun units :: "string \<Rightarrow> string list" where
  "units [] = []"
| "units (a # s) = (a # take (unit_length a - 1) s) # units (drop (unit_length a - 1) s)"

text \<open>The own enumerable properties \<open>...extra\<close> copies: those of an object; the
  elements of an array and the code units of a string, under their indices; none for
  \<open>undefined\<close>, \<open>null\<close>, a boolean or an \<open>Error\<close>.\<close>

fun own_props :: "jsval \<Rightarrow> (string \<times> jsval) list" where
  "own_props (JObj _ kvs) = kvs"
| "own_props (JArr _ xs) = map (\<lambda>(i, x). (dec i, x)) (enumerate 0 xs)"
| "own_props (JStr s) = map (\<lambda>(i, u). (dec i, JStr u)) (enumerate 0 (units s))"
| "own_props _ = []"

text \<open>The first part of \<open>RemoteValidator.validateFn\<close>: the URL is \<open>this.url\<close>, else the
  requirement when it is a string, else the requirement's \<open>url\<close>; without one no request
  is made. The payload is \<open>{ [this.dataKey]: values, ...extra }\<close>.\<close>

definition resolvedUrl :: "remote \<Rightarrow> jsval \<Rightarrow> jsval" where
  "resolvedUrl rv requirements =
     js_or (url rv)
       (js_or (case requirements of JStr s \<Rightarrow> JStr s | _ \<Rightarrow> JBool False)
              (if truthy requirements then get_prop ''url'' requirements else requirements))"

definition remote_request :: "remote \<Rightarrow> jsval \<Rightarrow> jsval \<Rightarrow> request option" where
  "remote_request rv vals requirements =
     (if \<not> truthy (resolvedUrl rv requirements) then None
      else Some \<lparr> rq_url = resolvedUrl rv requirements,
                  rq_method = r_method rv,
                  rq_data =
                    spread [(dataKey rv, vals)]
                      (own_props (js_or (if truthy requirements then get_prop ''extra'' requirements
                                         else requirements) (JObj 0 []))) \<rparr>)"

text \<open>\<open>RemoteValidator.validateFn(values, requirements)\<close> against a transport \<open>ajax\<close>:
  always a promise. Without a URL it resolves with \<open>false\<close>; a response the pass/fail
  function accepts resolves with \<open>{successMessage}\<close>, one it refuses rejects with
  \<open>data?.errorMessage || this.message\<close>, a throwing pass/fail function rejects with what
  it threw, a failed transport with \<open>errorThrown || textStatus || 'Remote validation
  failed'\<close>. The method also reports a missing URL and a throwing pass/fail function
  with \<open>console.error\<close>; the log of an evaluation holds what \<open>Validator.validate\<close>,
  the conditions and the handlers of the field write, not what a predicate writes.\<close>

definition remote_validateFn ::
  "remote \<Rightarrow> (request \<Rightarrow> ajax_result) \<Rightarrow> jsval list \<Rightarrow> fn_result" where
  "remote_validateFn rv ajax args =
     (let vals = (case args of [] \<Rightarrow> JUndef | a # _ \<Rightarrow> a);
          requirements = (case args of _ # b # _ \<Rightarrow> b | _ \<Rightarrow> JUndef)
      in case remote_request rv vals requirements of
           None \<Rightarrow> ThenResolves (JBool False)
         | Some rq \<Rightarrow>
             (case ajax rq of
                Done data textStatus status \<Rightarrow>
                  (case isValidFn rv data textStatus status of
                     Thrown e \<Rightarrow> ThenRejects e
                   | Returned ok \<Rightarrow>
                       if truthy ok
                       then ThenResolves (JObj 0 [(''successMessage'', get_prop ''successMessage'' data)])
                       else ThenRejects (js_or (get_prop ''errorMessage'' data) (JStr (r_message rv))))
              | Fail textStatus errorThrown \<Rightarrow>
                  ThenRejects (js_or errorThrown
                                 (js_or (JStr textStatus) (JStr ''Remote validation failed'')))))"

text \<open>A remote validator as the \<open>Validator\<close> it extends; its predicate is the bound
  \<open>validateFn\<close> above.\<close>

definition as_validator :: "remote \<Rightarrow> (request \<Rightarrow> ajax_result) \<Rightarrow> validator" where
  "as_validator rv ajax =
     \<lparr> name = r_name rv,
       validateFn = Some (remote_validateFn rv ajax),
       message = r_message rv,
       group = r_group rv,
       priority = r_priority rv \<rparr>"

text \<open>
  The registry \<open>customValidators\<close> and the table \<open>standardValidators\<close> are plain
  objects, and the engine reads them as \<open>customValidators[name]\<close>: for a name that
  \<open>Object.prototype\<close> has, the read finds that member, which is truthy and is no
  validator.
\<close>

definition Object_prototype :: "string list" where
  "Object_prototype =
     [''constructor'', ''hasOwnProperty'', ''isPrototypeOf'', ''propertyIsEnumerable'',
      ''toLocaleString'', ''toString'', ''valueOf'', ''__proto__'', ''__defineGetter__'',
      ''__defineSetter__'', ''__lookupGetter__'', ''__lookupSetter__'']"

text \<open>What \<open>addValidator(name, spec)\<close> is given: a \<open>Validator\<close> instance, or a
  specification object.\<close>

datatype registration = Instance validator | Spec vspec

text \<open>
  \<open>addValidator(name, spec)\<close>: a name for which \<open>customValidators[name]\<close> is truthy is
  left as it is (with a warning). An instance is stored as it is, under the trimmed name
  and with the name it has. From a specification object a validator is built with
  \<open>{ name, ...spec }\<close>, in which a \<open>name\<close> of the specification replaces the trimmed
  name; \<open>spec.remote || spec.url\<close> makes it a remote validator, anything else a plain
  one.
\<close>

definition addValidator ::
  "(string \<times> string) list \<Rightarrow> (request \<Rightarrow> ajax_result) \<Rightarrow> (string \<rightharpoonup> validator) \<Rightarrow> string \<Rightarrow>
     registration \<Rightarrow> (string \<rightharpoonup> validator)" where
  "addValidator msgs ajax customValidators n spec =
     (if customValidators (trim n) \<noteq> None \<or> trim n \<in> set Object_prototype then customValidators
      else case spec of
          Instance v \<Rightarrow> customValidators(trim n \<mapsto> v)
        | Spec sp \<Rightarrow>
            if s_remote sp \<or> (case s_url sp of Some u \<Rightarrow> u \<noteq> [] | None \<Rightarrow> False)
            then customValidators(trim n \<mapsto>
                   as_validator
                     (RemoteValidator msgs (case s_name sp of Some m \<Rightarrow> m | None \<Rightarrow> trim n) sp) ajax)
            else customValidators(trim n \<mapsto>
                   Validator msgs (case s_name sp of Some m \<Rightarrow> m | None \<Rightarrow> trim n)
                     (s_validateFn sp) (s_message sp) (s_group sp) (s_priority sp)))"

section \<open>Built-in rules and constraints\<close>

text \<open>The table \<open>standardValidators\<close>: every built-in rule with its priority.\<close>

definition standardValidators :: "(string \<times> int) list" where
  "standardValidators =
     [(''required'', 100), (''minrequired'', 50), (''pattern'', 70), (''min'', 60), (''max'', 60),
      (''range'', 61), (''minlength'', 50), (''maxlength'', 50), (''length'', 51),
      (''equalto'', 40), (''notequalto'', 40), (''gt'', 40), (''gte'', 40), (''lt'', 40),
      (''lte'', 40), (''mincheck'', 30), (''maxcheck'', 30), (''check'', 31), (''date'', 60),
      (''type'', 70)]"

definition typeTesters :: "string list" where
  "typeTesters =
     [''number'', ''email'', ''date'', ''tel'', ''url'', ''selector'', ''regexp'', ''integer'',
      ''digits'', ''alphanum'', ''range'']"

text \<open>
  What a constraint is built from: the registered custom and remote validators, the
  message tables, and the parts of the built-in table that compute with floating-point
  numbers, regular expressions and dates, taken as given: the predicates of the rules
  other than \<open>required\<close>, and the check of a requirement against a rule's
  \<open>requirementType\<close>.
\<close>

record registry =
  customValidators :: "string \<rightharpoonup> validator"
  Messages :: "(string \<times> string) list"
  typeMessages :: "(string \<times> string) list"
  predicates :: "string \<Rightarrow> jsval list \<Rightarrow> fn_result"
  requirementTypeOk :: "string \<Rightarrow> jsval \<Rightarrow> bool"

text \<open>The \<open>validate\<close> entry of a built-in rule; \<open>required\<close> is
  \<open>(value) => !Utils.empty(value)\<close>.\<close>

definition standard_validate :: "registry \<Rightarrow> string \<Rightarrow> jsval list \<Rightarrow> fn_result" where
  "standard_validate reg n args =
     (if n = ''required''
      then Sync (JBool (\<not> empty_js (case args of [] \<Rightarrow> JUndef | a # _ \<Rightarrow> a)))
      else predicates reg n args)"

text \<open>\<open>getErrorMessage(key, undefined, objectKey)\<close>: the table's entry (for \<open>type\<close>,
  the entry of the requirement in the sub-table), else the default message.\<close>

definition getErrorMessage :: "registry \<Rightarrow> string \<Rightarrow> jsval \<Rightarrow> string" where
  "getErrorMessage reg key objectKey =
     (let dflt = (case map_of (Messages reg) ''defaultMessage'' of Some d \<Rightarrow> d | None \<Rightarrow> []);
          entry = (if key = ''type''
                   then (case objectKey of JStr k \<Rightarrow> map_of (typeMessages reg) k | _ \<Rightarrow> None)
                   else map_of (Messages reg) key)
      in case entry of Some t \<Rightarrow> if t \<noteq> [] then t else dflt | None \<Rightarrow> dflt)"

text \<open>\<open>Constraint.isStandardConstraint\<close>: \<open>standardValidators[name]\<close> is truthy for
  the rules of the table and for the members of \<open>Object.prototype\<close>.\<close>

definition isStandardConstraint :: "string \<Rightarrow> jsval \<Rightarrow> bool" where
  "isStandardConstraint n requirement =
     (if map_of standardValidators n = None \<and> n \<notin> set Object_prototype then False
      else if n = ''type''
      then (case requirement of JStr t \<Rightarrow> t \<in> set typeTesters | _ \<Rightarrow> False)
      else True)"

text \<open>\<open>new StandardValidator(name, requirements)\<close>, for a name of the table: the
  priority is the table's, a requirement of the wrong shape throws.\<close>

definition StandardValidator :: "registry \<Rightarrow> string \<Rightarrow> jsval \<Rightarrow> validator result" where
  "StandardValidator reg n requirements =
     (if \<not> requirementTypeOk reg n requirements
      then Thrown (JError (''[Fiddo] StandardValidator '' @ n @ '': requirement of the wrong type''))
      else Returned
        ((Validator (Messages reg) n None (Some (getErrorMessage reg n requirements)) False
            (map_of standardValidators n))
         \<lparr> validateFn := Some (standard_validate reg n) \<rparr>))"

text \<open>
  \<open>class Constraint\<close>: a rule bound to its requirement, with the validator found for it
  (a registered one first, a built-in one otherwise, none for an unknown name) and the
  priority \<open>this.validator?.priority ?? 0\<close>. For a name that \<open>Object.prototype\<close> has
  and no validator is registered under, \<open>customValidators[name]\<close> is that member: the
  constraint holds no validator, its priority is 0, and evaluating it throws a
  \<open>TypeError\<close>, since the member has no \<open>validate\<close> method.
\<close>

record constraint =
  c_name :: string
  requirements :: jsval
  c_validator :: "validator option"
  c_priority :: int

definition Constraint :: "registry \<Rightarrow> string \<Rightarrow> jsval \<Rightarrow> constraint result" where
  "Constraint reg n reqs =
     (case customValidators reg n of
        Some v \<Rightarrow>
          Returned \<lparr> c_name = n, requirements = reqs, c_validator = Some v, c_priority = priority v \<rparr>
      | None \<Rightarrow>
          if n \<in> set Object_prototype
          then Returned \<lparr> c_name = n, requirements = reqs, c_validator = None, c_priority = 0 \<rparr>
          else if isStandardConstraint n reqs
          then (case StandardValidator reg n reqs of
                  Thrown e \<Rightarrow> Thrown e
                | Returned v \<Rightarrow>
                    Returned \<lparr> c_name = n, requirements = reqs, c_validator = Some v,
                               c_priority = priority v \<rparr>)
          else Returned \<lparr> c_name = n, requirements = reqs, c_validator = None, c_priority = 0 \<rparr>)"

text \<open>\<open>Constraint.validateConstraint(value)\<close>.\<close>

definition validateConstraint ::
  "constraint \<Rightarrow> jsval \<Rightarrow> jsval \<Rightarrow> jsval settle result \<times> log list" where
  "validateConstraint c val customErrorMessage =
     (case c_validator c of
        None \<Rightarrow>
          if c_name c \<in> set Object_prototype
          then (Thrown (JError ''this.validator.validate is not a function''), [])
          else (Thrown (JError ''Validator not found''), [])
      | Some v \<Rightarrow> validate v val (requirements c) customErrorMessage)"

section \<open>The two execution strategies\<close>

text \<open>
  An item is a thunk: run on the state of the world, it throws or returns a settled
  promise, and leaves a state. \<open>Utils.runSequential\<close> calls the thunks one at a time and
  rejects with the one-element list of the first failure, thrown or rejected.
\<close>

fun runSequential ::
  "('s \<Rightarrow> 'a settle result \<times> 's) list \<Rightarrow> 'a list \<Rightarrow> 's \<Rightarrow> 'a list settle \<times> 's" where
  "runSequential [] results s = (Fulfilled results, s)"
| "runSequential (it # items) results s =
     (case it s of
        (Thrown e, s') \<Rightarrow> (Rejected (Errors [Raw e]), s')
      | (Returned (Rejected e), s') \<Rightarrow> (Rejected (Errors [e]), s')
      | (Returned (Fulfilled v), s') \<Rightarrow> runSequential items (results @ [v]) s')"

text \<open>The concurrent strategy starts every evaluation while the list is mapped, so a
  call that throws ends the mapping; \<open>Utils.all\<close> then waits for all the promises and
  rejects with every reason, in order.\<close>

fun start_all ::
  "('s \<Rightarrow> 'a settle result \<times> 's) list \<Rightarrow> 's \<Rightarrow> 'a settle list result \<times> 's" where
  "start_all [] s = (Returned [], s)"
| "start_all (it # items) s =
     (case it s of
        (Thrown e, s') \<Rightarrow> (Thrown e, s')
      | (Returned p, s') \<Rightarrow>
          (case start_all items s' of
             (Thrown e, s'') \<Rightarrow> (Thrown e, s'')
           | (Returned ps, s'') \<Rightarrow> (Returned (p # ps), s'')))"

fun rejections :: "'a settle list \<Rightarrow> reason list" where
  "rejections [] = []"
| "rejections (Rejected e # ps) = e # rejections ps"
| "rejections (Fulfilled v # ps) = rejections ps"

fun fulfilments :: "'a settle list \<Rightarrow> 'a list" where
  "fulfilments [] = []"
| "fulfilments (Fulfilled v # ps) = v # fulfilments ps"
| "fulfilments (Rejected e # ps) = fulfilments ps"

definition Utils_all :: "'a settle list \<Rightarrow> 'a list settle" where
  "Utils_all promises =
     (if rejections promises \<noteq> [] then Rejected (Errors (rejections promises))
      else Fulfilled (fulfilments promises))"

text \<open>Mapping the items and running them, as \<open>_buildValidationsFor\<close> followed by
  \<open>run(promises)\<close> does under each value of \<open>stopAtFirstError\<close>. Only the concurrent
  mapping can throw.\<close>

definition run_items ::
  "bool \<Rightarrow> ('s \<Rightarrow> 'a settle result \<times> 's) list \<Rightarrow> 's \<Rightarrow> 'a list settle result \<times> 's" where
  "run_items stopAtFirstError items s =
     (if stopAtFirstError
      then (case runSequential items [] s of (r, s') \<Rightarrow> (Returned r, s'))
      else (case start_all items s of
              (Thrown e, s') \<Rightarrow> (Thrown e, s')
            | (Returned ps, s') \<Rightarrow> (Returned (Utils_all ps), s')))"

section \<open>Fields\<close>

subsection \<open>The conditional gate\<close>

text \<open>
  The document and the window, as \<open>shouldValidate\<close> consults them: what a selector
  matches (nothing, a checkbox with its checked state, a select or another control with
  its value), the global functions by name with what calling them does, and what
  evaluating an expression string does.
\<close>

datatype target = TCheckbox bool | TSelect jsval | TControl jsval

datatype call = Returns jsval | Raises jsval

datatype condition = CondString string | CondFunction call | CondOther

record page =
  query :: "string \<Rightarrow> target option"
  window_fn :: "string \<Rightarrow> call option"
  eval_js :: "string \<Rightarrow> call"

definition is_alpha :: "char \<Rightarrow> bool" where
  "is_alpha c = ((97 \<le> (of_char c :: nat) \<and> (of_char c :: nat) \<le> 122)
               \<or> (65 \<le> (of_char c :: nat) \<and> (of_char c :: nat) \<le> 90))"

definition is_word :: "char \<Rightarrow> bool" where
  "is_word c = (is_alpha c \<or> (48 \<le> (of_char c :: nat) \<and> (of_char c :: nat) \<le> 57) \<or> c = CHR ''_'')"

text \<open>\<open>Utils.isSelector\<close> on a string: the pattern
  \<open>^([#.][\w-]+|\[[^\]]+\]|[a-zA-Z][\w-]*)$\<close>.\<close>

definition isSelector :: "string \<Rightarrow> bool" where
  "isSelector s =
     (case s of
        [] \<Rightarrow> False
      | c # cs \<Rightarrow>
          ((c = CHR ''#'' \<or> c = CHR ''.'') \<and> cs \<noteq> [] \<and> list_all (\<lambda>x. is_word x \<or> x = CHR ''-'') cs)
          \<or> (c = CHR ''['' \<and> 2 \<le> length cs \<and> last cs = CHR '']''
               \<and> list_all (\<lambda>x. x \<noteq> CHR '']'') (butlast cs))
          \<or> (is_alpha c \<and> list_all (\<lambda>x. is_word x \<or> x = CHR ''-'') cs))"

definition call_value :: "call \<Rightarrow> bool \<times> log list" where
  "call_value c = (case c of Returns v \<Rightarrow> (truthy v, []) | Raises e \<Rightarrow> (False, [ConsoleWarn e]))"

text \<open>\<open>evaluateConditionValue\<close> for a condition that is defined. Whatever is thrown
  inside (a selector that matches nothing included) is caught, passed to \<open>Utils.warn\<close>,
  and the result is \<open>false\<close>.\<close>

definition evaluateConditionValue :: "page \<Rightarrow> condition \<Rightarrow> bool \<times> log list" where
  "evaluateConditionValue pg cond =
     (case cond of
        CondString s \<Rightarrow>
          if isSelector s
          then (case query pg s of
                  None \<Rightarrow>
                    (False, [ConsoleWarn (JError (''[Fiddo] validate-if selector '' @ s
                                                    @ '' did not match any elements.''))])
                | Some (TCheckbox checked) \<Rightarrow> (checked, [])
                | Some (TSelect v) \<Rightarrow> ((case v of JArr _ xs \<Rightarrow> length xs > 0 | _ \<Rightarrow> truthy v), [])
                | Some (TControl v) \<Rightarrow> (truthy v, []))
          else (case window_fn pg s of
                  Some c \<Rightarrow> call_value c
                | None \<Rightarrow> call_value (eval_js pg s))
      | CondFunction c \<Rightarrow> call_value c
      | CondOther \<Rightarrow> (True, []))"

subsection \<open>State of a field\<close>

text \<open>
  \<open>class Field\<close>: the element as the engine reads it (its \<open>type\<close>, what \<open>val()\<close>
  returns, whether it is visible), the constraints in the order \<open>Object.values\<close> lists
  them, the two conditions of \<open>domOptions\<close> (\<open>None\<close> when not declared), and the cache:
  \<open>_lastValidatedValue\<close>, \<open>_lastValidationState\<close> (\<open>None\<close> is \<open>null\<close>, unknown),
  \<open>validationResult\<close>, \<open>_isValid\<close>, \<open>_failedOnce\<close>. The value \<open>elem_value\<close> is
  the one read during an evaluation; an array read at a later time is a new array, with
  another identity.
\<close>

record field =
  f_id :: string
  elem_type :: string
  elem_value :: jsval
  elem_checked :: bool
  elem_visible :: bool
  constraints :: "constraint list"
  validateIf :: "condition option"
  notValidateIf :: "condition option"
  customErrorMessage :: jsval
  lastValidatedValue :: jsval
  lastValidationState :: "bool option"
  validationResult :: "reason option"
  isValid :: bool
  failedOnce :: bool

text \<open>What an evaluation leaves behind besides the field: the constraints whose
  evaluation was started, in order, and what was logged.\<close>

record world =
  started :: "string list"
  logged :: "log list"

record 'f outcome =
  settled :: "jsval settle"
  after :: 'f
  trace :: world

definition shouldValidate :: "page \<Rightarrow> field \<Rightarrow> bool \<times> log list" where
  "shouldValidate pg f =
     (let should = (case validateIf f of None \<Rightarrow> (True, []) | Some c \<Rightarrow> evaluateConditionValue pg c);
          shouldNot = (case notValidateIf f of None \<Rightarrow> (False, [])
                       | Some c \<Rightarrow> evaluateConditionValue pg c)
      in (fst should \<and> \<not> fst shouldNot, snd should @ snd shouldNot))"

definition to_lower :: "char \<Rightarrow> char" where
  "to_lower c = (if 65 \<le> (of_char c :: nat) \<and> (of_char c :: nat) \<le> 90
                 then char_of ((of_char c :: nat) + 32) else c)"

text \<open>\<open>/^(checkbox|radio)$/i.test(this.element.type)\<close>.\<close>

definition is_checkbox_or_radio :: "string \<Rightarrow> bool" where
  "is_checkbox_or_radio t = (map to_lower t = ''checkbox'' \<or> map to_lower t = ''radio'')"

definition isRequired :: "field \<Rightarrow> bool" where
  "isRequired f =
     (case find (\<lambda>c. c_name c = ''required'') (constraints f) of
        None \<Rightarrow> False
      | Some c \<Rightarrow> requirements c \<noteq> JBool False)"

definition instanceof_Error :: "reason \<Rightarrow> bool" where
  "instanceof_Error r =
     (case r of Raw (JError _) \<Rightarrow> True | ValidationError _ _ \<Rightarrow> True | _ \<Rightarrow> False)"

definition is_required_error :: "reason \<Rightarrow> bool" where
  "is_required_error r = (case r of ValidationError a _ \<Rightarrow> a = ''required'' | _ \<Rightarrow> False)"

text \<open>\<open>_handleUI(isValid)\<close>, for what it does to the state: it records \<open>_isValid\<close>
  and, when there are errors to show, flips \<open>_failedOnce\<close> and moves the \<open>required\<close>
  error to the front of \<open>validationResult\<close>. It then reads \<open>sortedErrors[0]['assert']\<close>,
  which throws a \<open>TypeError\<close> when that first reason is \<open>null\<close> or \<open>undefined\<close>
  (\<open>handleUI_throws\<close>, with the message of the engine; the arrays the strategies reject
  with hold one reason, or \<open>ValidationError\<close>s only).\<close>

definition handleUI_throws :: "reason \<Rightarrow> jsval option" where
  "handleUI_throws r =
     (case r of
        Errors errs \<Rightarrow>
          (case filter is_required_error errs @ filter (\<lambda>e. \<not> is_required_error e) errs of
             Raw JNull # _ \<Rightarrow> Some (JError ''Cannot read properties of null (reading 'assert')'')
           | Raw JUndef # _ \<Rightarrow>
               Some (JError ''Cannot read properties of undefined (reading 'assert')'')
           | _ \<Rightarrow> None)
      | _ \<Rightarrow> None)"

definition handleUI :: "bool \<Rightarrow> field \<Rightarrow> field" where
  "handleUI v f =
     (case validationResult f of
        Some (Errors errs) \<Rightarrow>
          if \<not> v \<and> errs \<noteq> []
          then f \<lparr> isValid := v, failedOnce := True,
                   validationResult :=
                     Some (Errors (filter is_required_error errs
                                   @ filter (\<lambda>e. \<not> is_required_error e) errs)) \<rparr>
          else f \<lparr> isValid := v \<rparr>
      | _ \<Rightarrow> f \<lparr> isValid := v \<rparr>)"

text \<open>\<open>resolveAsValid\<close> inside \<open>whenValidate\<close>.\<close>

definition resolveAsValid :: "jsval \<Rightarrow> field \<Rightarrow> world \<Rightarrow> field outcome" where
  "resolveAsValid val f w =
     \<lparr> settled = Fulfilled val,
       after = (if lastValidationState f = Some False then handleUI True f else f)
                 \<lparr> lastValidationState := Some True \<rparr>,
       trace = w \<rparr>"

text \<open>\<open>_buildValidationsFor\<close>: the constraints sorted by the comparator
  \<open>(a, b) => b.priority - a.priority\<close> (\<open>Array.prototype.sort\<close> is stable), each
  mapped to the evaluation of \<open>validateConstraint(value)\<close>.\<close>

definition sorted_constraints :: "field \<Rightarrow> constraint list" where
  "sorted_constraints f = sort_key (\<lambda>c. - c_priority c) (constraints f)"

definition constraint_item :: "field \<Rightarrow> jsval \<Rightarrow> constraint \<Rightarrow> world \<Rightarrow> jsval settle result \<times> world" where
  "constraint_item f val c w =
     (case validateConstraint c val (customErrorMessage f) of
        (r, l) \<Rightarrow> (r, w \<lparr> started := started w @ [c_name c], logged := logged w @ l \<rparr>))"

definition buildValidationsFor ::
  "field \<Rightarrow> jsval \<Rightarrow> (world \<Rightarrow> jsval settle result \<times> world) list" where
  "buildValidationsFor f val = map (constraint_item f val) (sorted_constraints f)"

text \<open>The handlers of \<open>_finalizeValidationResult\<close>. The rejection handler logs a
  reason that is an \<open>Error\<close> instance and returns, which fulfils the promise with
  \<open>undefined\<close>; any other reason makes the field invalid, unless \<open>_handleUI\<close> throws
  in the handler: the promise then rejects with that \<open>TypeError\<close> and
  \<open>_lastValidationState\<close> is left as it was.\<close>

definition finalize_then :: "jsval \<Rightarrow> field \<Rightarrow> world \<Rightarrow> field outcome" where
  "finalize_then val f w =
     \<lparr> settled = Fulfilled val,
       after = (handleUI True (f \<lparr> validationResult := None \<rparr>)) \<lparr> lastValidationState := Some True \<rparr>,
       trace = w \<rparr>"

definition error_message :: "reason \<Rightarrow> jsval" where
  "error_message r =
     (case r of
        Raw e \<Rightarrow> get_prop ''message'' e
      | ValidationError a m \<Rightarrow> (if m = JUndef then JStr [] else JStr (toString m))
      | _ \<Rightarrow> JUndef)"

definition finalize_catch :: "reason \<Rightarrow> field \<Rightarrow> world \<Rightarrow> field outcome" where
  "finalize_catch onErrorMessages f w =
     (if instanceof_Error onErrorMessages
      then \<lparr> settled = Fulfilled JUndef, after = f,
             trace = w \<lparr> logged := logged w @ [ConsoleError (error_message onErrorMessages)] \<rparr> \<rparr>
      else case handleUI_throws onErrorMessages of
          Some e \<Rightarrow>
            \<lparr> settled = Rejected (Raw e),
              after = f \<lparr> validationResult := Some onErrorMessages, isValid := False,
                          failedOnce := True \<rparr>,
              trace = w \<rparr>
        | None \<Rightarrow>
            \<lparr> settled = Rejected (FieldRef (f_id f)),
              after = (handleUI False (f \<lparr> validationResult := Some onErrorMessages \<rparr>))
                        \<lparr> lastValidationState := Some False \<rparr>,
              trace = w \<rparr>)"

text \<open>
  What the evaluations of the constraints, run under the configured strategy, come to,
  and what the field makes of it when they settle. An exception thrown while the
  concurrent strategy maps the constraints rejects the promise \<open>whenValidate\<close> returned
  with that exception; otherwise the handlers above run, on the field as it is at that
  moment.
\<close>

definition finalizeValidationResult ::
  "jsval \<Rightarrow> jsval list settle result \<times> world \<Rightarrow> field \<Rightarrow> field outcome" where
  "finalizeValidationResult val run f =
     (case run of
        (Thrown e, w') \<Rightarrow> \<lparr> settled = Rejected (Raw e), after = f, trace = w' \<rparr>
      | (Returned (Fulfilled msgs), w') \<Rightarrow> finalize_then val f w'
      | (Returned (Rejected r), w') \<Rightarrow> finalize_catch r f w')"

text \<open>The continuation of \<open>whenValidate\<close> once the pre-validation hook has resolved:
  build the evaluations, run them, finalize, with nothing else happening to the field in
  between.\<close>

definition validate_own :: "bool \<Rightarrow> jsval \<Rightarrow> field \<Rightarrow> world \<Rightarrow> field outcome" where
  "validate_own stopAtFirstError val f w =
     finalizeValidationResult val (run_items stopAtFirstError (buildValidationsFor f val) w) f"

text \<open>The part of \<open>whenValidate\<close> before the hook: the cached answer, the reset of the
  cache for a new evaluation (the clone of the value has the identity \<open>fresh\<close>), and the
  two skips. \<open>Inl\<close> is a promise already returned, \<open>Inr\<close> the field and the log to go
  on with.\<close>

definition cached :: "field \<Rightarrow> jsval \<Rightarrow> bool" where
  "cached f val = (areEquals val (lastValidatedValue f) \<and> lastValidationState f \<noteq> None)"

definition before_hook :: "page \<Rightarrow> nat \<Rightarrow> jsval \<Rightarrow> field \<Rightarrow> field outcome + field \<times> world" where
  "before_hook pg fresh val f =
     (if cached f val
      then Inl \<lparr> settled = (if lastValidationState f = Some True then Fulfilled val
                             else Rejected (FieldRef (f_id f))),
                 after = f, trace = \<lparr> started = [], logged = [] \<rparr> \<rparr>
      else
        let f1 = f \<lparr> validationResult := Some (Errors []),
                     lastValidatedValue := cloneValue fresh val \<rparr>
        in if is_checkbox_or_radio (elem_type f1)
           then Inl (resolveAsValid val f1 \<lparr> started = [], logged = [] \<rparr>)
           else
             let sv = shouldValidate pg f1; w = \<lparr> started = [], logged = snd sv \<rparr>
             in if \<not> fst sv \<or> constraints f1 = [] \<or> \<not> elem_visible f1
                then Inl (resolveAsValid val f1 w)
                else if empty_js val \<and> \<not> isRequired f1
                then Inl (resolveAsValid val f1 w)
                else Inr (f1, w))"

text \<open>\<open>Field.whenValidate\<close>, whose hook \<open>_preValidate\<close> resolves at once, for an
  evaluation during which nothing else happens to the field. The value is what
  \<open>getValue()\<close> returns, \<open>$element.val()\<close>.\<close>

definition whenValidate :: "bool \<Rightarrow> page \<Rightarrow> nat \<Rightarrow> field \<Rightarrow> field outcome" where
  "whenValidate stopAtFirstError pg fresh f =
     (case before_hook pg fresh (elem_value f) f of
        Inl out \<Rightarrow> out
      | Inr (f1, w) \<Rightarrow> validate_own stopAtFirstError (elem_value f) f1 w)"

text \<open>
  Two evaluations of a field that overlap. \<open>whenValidate\<close> stores the value when it is
  called and the state when the promise of its checks settles, which for a remote check
  is when the response arrives. In between the element may take another value \<open>v\<close> and
  the field be evaluated again: the handlers of the first evaluation then run on the field
  as the second left it. The outcome is that of the first evaluation.
\<close>

definition overlapped :: "bool \<Rightarrow> page \<Rightarrow> nat \<Rightarrow> field \<Rightarrow> jsval \<Rightarrow> field outcome" where
  "overlapped stopAtFirstError pg fresh f v =
     (case before_hook pg fresh (elem_value f) f of
        Inl out \<Rightarrow> out
      | Inr (f1, w) \<Rightarrow>
          finalizeValidationResult (elem_value f)
            (run_items stopAtFirstError (buildValidationsFor f1 (elem_value f)) w)
            (after (whenValidate stopAtFirstError pg (Suc fresh) (f1 \<lparr> elem_value := v \<rparr>))))"

subsection \<open>Group fields\<close>

text \<open>
  \<open>class GroupField extends Field\<close>: the field part of the group (its own constraints,
  conditions and cache), the child fields \<open>this.fields\<close> in order, and \<open>multipleType\<close> (\<open>checkbox\<close>
  or \<open>radio\<close> when the children are of that type, \<open>None\<close> otherwise).
\<close>

record groupfield =
  g_field :: field
  children :: "field list"
  multipleType :: "string option"

text \<open>\<open>GroupField.getValue\<close>: the values of the checked children, the value of the
  first checked child or \<open>''\<close>, or the values of all the children; the array is a new
  one (identity \<open>fresh\<close>). A child's \<open>element.value\<close> is what its \<open>val()\<close> returns.\<close>

definition getValue :: "nat \<Rightarrow> groupfield \<Rightarrow> jsval" where
  "getValue fresh g =
     (if multipleType g = Some ''checkbox''
      then JArr fresh (map elem_value (filter elem_checked (children g)))
      else if multipleType g = Some ''radio''
      then (case find elem_checked (children g) of Some c \<Rightarrow> elem_value c | None \<Rightarrow> JStr [])
      else JArr fresh (map elem_value (children g)))"

definition no_trace :: world where
  "no_trace = \<lparr> started = [], logged = [] \<rparr>"

text \<open>The evaluation of the child at position \<open>i\<close>, as an item: \<open>f.whenValidate()\<close>
  returns a promise and never throws. The children's trace is kept apart from the
  group's own, each constraint under the id of its child.\<close>

definition child_item ::
  "bool \<Rightarrow> page \<Rightarrow> nat \<Rightarrow> nat \<Rightarrow> field list \<times> world \<Rightarrow> jsval settle result \<times> field list \<times> world" where
  "child_item stopAtFirstError pg fresh i s =
     (case s of (fs, w) \<Rightarrow>
        let out = whenValidate stopAtFirstError pg (fresh + i) (fs ! i)
        in (Returned (settled out),
            fs[i := after out],
            \<lparr> started = started w @ map (\<lambda>n. f_id (fs ! i) @ ''.'' @ n) (started (trace out)),
              logged = logged w @ logged (trace out) \<rparr>))"

text \<open>
  \<open>GroupField._preValidate\<close>: \<open>None\<close> when the promise resolves, \<open>Some\<close> reason when it
  rejects. Without children it resolves; a child known invalid rejects with the group; the
  children never evaluated or whose value changed are evaluated under the configured
  strategy, and a failure among them rejects with the group.
\<close>

definition needsValidation :: "field \<Rightarrow> bool" where
  "needsValidation f =
     (lastValidationState f = None \<or> \<not> areEquals (elem_value f) (lastValidatedValue f))"

definition preValidate ::
  "bool \<Rightarrow> page \<Rightarrow> nat \<Rightarrow> string \<Rightarrow> field list \<Rightarrow> reason option \<times> field list \<times> world" where
  "preValidate stopAtFirstError pg fresh gid fs =
     (if fs = [] then (None, fs, no_trace)
      else if list_ex (\<lambda>f. lastValidationState f = Some False) fs
      then (Some (FieldRef gid), fs, no_trace)
      else
        let needValidations = filter (\<lambda>i. needsValidation (fs ! i)) [0 ..< length fs]
        in if needValidations = []
           then (if list_all (\<lambda>f. lastValidationState f = Some True) fs then None
                 else Some (FieldRef gid), fs, no_trace)
           else (case run_items stopAtFirstError
                        (map (child_item stopAtFirstError pg fresh) needValidations) (fs, no_trace) of
                   (Thrown e, fs', w) \<Rightarrow> (Some (Raw e), fs', w)
                 | (Returned (Fulfilled vs), fs', w) \<Rightarrow> (None, fs', w)
                 | (Returned (Rejected errs), fs', w) \<Rightarrow>
                     (Some (if instanceof_Error errs then errs else FieldRef gid), fs', w)))"

text \<open>
  \<open>whenValidate\<close> on a group: the inherited method over the group's own value, with the
  hook above. A hook that rejects rejects the evaluation with the same reason and the
  continuation does not run. The second component is the children's trace.
\<close>

definition whenValidateGroup ::
  "bool \<Rightarrow> page \<Rightarrow> nat \<Rightarrow> groupfield \<Rightarrow> groupfield outcome \<times> world" where
  "whenValidateGroup stopAtFirstError pg fresh g =
     (case before_hook pg (Suc fresh) (getValue fresh g) (g_field g) of
        Inl out \<Rightarrow>
          (\<lparr> settled = settled out, after = g \<lparr> g_field := after out \<rparr>, trace = trace out \<rparr>,
           no_trace)
      | Inr (f1, w) \<Rightarrow>
          (case preValidate stopAtFirstError pg (fresh + 2) (f_id f1) (children g) of
             (Some r, fs', cw) \<Rightarrow>
               (\<lparr> settled = Rejected r, after = g \<lparr> g_field := f1, children := fs' \<rparr>, trace = w \<rparr>, cw)
           | (None, fs', cw) \<Rightarrow>
               (let out = validate_own stopAtFirstError (getValue fresh g) f1 w
                in (\<lparr> settled = settled out, after = g \<lparr> g_field := after out, children := fs' \<rparr>,
                      trace = trace out \<rparr>, cw))))"

section \<open>Concrete inputs\<close>

text \<open>The remote validator of the documentation's minimal example, declared without a
  \<open>method\<close>; and one keyed by \<open>"*"\<close>.\<close>

definition emailAvailable_spec :: vspec where
  "emailAvailable_spec =
     \<lparr> s_name = None, s_validateFn = None, s_message = Some ''This email is already registered'',
       s_group = False, s_priority = Some 10, s_remote = False,
       s_url = Some ''/api/users/email/available'', s_method = None,
       s_dataKey = Some ''email'', s_isValidFn = None \<rparr>"

definition uniquePhone_spec :: vspec where
  "uniquePhone_spec =
     \<lparr> s_name = None, s_validateFn = None, s_message = None, s_group = False, s_priority = None,
       s_remote = True, s_url = None, s_method = Some ''POST'', s_dataKey = Some ''*'',
       s_isValidFn = None \<rparr>"

text \<open>The custom validator of the documentation, \<open>startsWith\<close>, a transport that always
  fails with \<open>Not Found\<close>, and a registry holding that validator, in which every built-in
  predicate other than \<open>required\<close> passes.\<close>

definition startsWith_fn :: "jsval list \<Rightarrow> fn_result" where
  "startsWith_fn args =
     (case args of
        JStr v # JStr p # _ \<Rightarrow> Sync (JBool (take (length p) (trim v) = p))
      | _ \<Rightarrow> Sync (JBool False))"

definition startsWith_spec :: vspec where
  "startsWith_spec =
     \<lparr> s_name = None, s_validateFn = Some startsWith_fn,
       s_message = Some ''Value must start with %s'',
       s_group = False, s_priority = Some 60, s_remote = False,
       s_url = None, s_method = None, s_dataKey = None, s_isValidFn = None \<rparr>"

definition startsWith_validator :: validator where
  "startsWith_validator =
     Validator MessagesDefaults ''startsWith'' (s_validateFn startsWith_spec)
       (s_message startsWith_spec) (s_group startsWith_spec) (s_priority startsWith_spec)"

definition no_transport :: "request \<Rightarrow> ajax_result" where
  "no_transport rq = Fail ''error'' (JStr ''Not Found'')"

definition example_registry :: registry where
  "example_registry =
     \<lparr> customValidators =
         addValidator MessagesDefaults no_transport Map.empty ''startsWith'' (Spec startsWith_spec),
       Messages = MessagesDefaults,
       typeMessages = [(''email'', ''This value should be a valid email address.'')],
       predicates = (\<lambda>n args. Sync (JBool True)),
       requirementTypeOk = (\<lambda>n r. True) \<rparr>"

text \<open>A field as its constructor leaves it, a page where \<open>#isCompany\<close> is a checked
  checkbox and nothing else exists, and two constraints of the example registry.\<close>

definition new_field :: "string \<Rightarrow> string \<Rightarrow> jsval \<Rightarrow> constraint list \<Rightarrow> field" where
  "new_field i t v cs =
     \<lparr> f_id = i, elem_type = t, elem_value = v, elem_checked = False, elem_visible = True,
       constraints = cs, validateIf = None, notValidateIf = None, customErrorMessage = JUndef,
       lastValidatedValue = JNull, lastValidationState = None, validationResult = None,
       isValid = False, failedOnce = False \<rparr>"

definition example_page :: page where
  "example_page =
     \<lparr> query = (\<lambda>s. if s = ''#isCompany'' then Some (TCheckbox True) else None),
       window_fn = (\<lambda>s. None),
       eval_js = (\<lambda>s. Raises (JError ''ReferenceError'')) \<rparr>"

definition startsWith_constraint :: constraint where
  "startsWith_constraint =
     \<lparr> c_name = ''startsWith'', requirements = JStr ''ABC'',
       c_validator = Some startsWith_validator, c_priority = 60 \<rparr>"

definition required_constraint :: constraint where
  "required_constraint =
     \<lparr> c_name = ''required'', requirements = JStr ''true'',
       c_validator = Some ((Validator MessagesDefaults ''required'' None
                              (Some ''This value is required.'') False (Some 100))
                           \<lparr> validateFn := Some (standard_validate example_registry ''required'') \<rparr>),
       c_priority = 100 \<rparr>"

text \<open>A condition fails when its selector matches nothing or when evaluating it throws.\<close>

definition raises :: "call \<Rightarrow> bool" where
  "raises k = (case k of Raises e \<Rightarrow> True | Returns v \<Rightarrow> False)"

definition condition_fails :: "page \<Rightarrow> condition \<Rightarrow> bool" where
  "condition_fails pg c =
     (case c of
        CondString s \<Rightarrow>
          if isSelector s then query pg s = None
          else (case window_fn pg s of Some k \<Rightarrow> raises k | None \<Rightarrow> raises (eval_js pg s))
      | CondFunction k \<Rightarrow> raises k
      | CondOther \<Rightarrow> False)"

text \<open>A page where no selector matches anything, and a required field that is
  validated only if \<open>#isCompany\<close> says so.\<close>

definition empty_page :: page where
  "empty_page =
     \<lparr> query = (\<lambda>s. None), window_fn = (\<lambda>s. None),
       eval_js = (\<lambda>s. Raises (JError ''ReferenceError'')) \<rparr>"

definition vat_field :: field where
  "vat_field =
     (new_field ''vat'' ''text'' (JStr []) [required_constraint])
       \<lparr> validateIf := Some (CondString ''#isCompany'') \<rparr>"

text \<open>The evaluations that get as far as the pre-validation hook: no answer from the
  cache and none of the skips.\<close>

definition reaches_hook :: "page \<Rightarrow> jsval \<Rightarrow> field \<Rightarrow> bool" where
  "reaches_hook pg val f =
     (\<not> cached f val \<and> \<not> is_checkbox_or_radio (elem_type f) \<and> fst (shouldValidate pg f)
      \<and> constraints f \<noteq> [] \<and> elem_visible f \<and> (\<not> empty_js val \<or> isRequired f))"

text \<open>A group with one rule of its own over given children, and a child known invalid:
  the required, empty field after its first evaluation.\<close>

definition blocked_group :: "field list \<Rightarrow> groupfield" where
  "blocked_group cs =
     \<lparr> g_field = new_field ''contact'' [] JUndef [startsWith_constraint],
       children = cs, multipleType = None \<rparr>"

definition failed_vat :: field where
  "failed_vat = after (whenValidate True example_page 0 vat_field)"

text \<open>A registry with a custom validator and a remote validator, both registered
  without a priority, and the constraints built from them.\<close>

definition nospaces_fn :: "jsval list \<Rightarrow> fn_result" where
  "nospaces_fn args =
     (case args of JStr v # _ \<Rightarrow> Sync (JBool (CHR 0x20 \<notin> set v)) | _ \<Rightarrow> Sync (JBool False))"

definition nospaces_spec :: vspec where
  "nospaces_spec =
     \<lparr> s_name = None, s_validateFn = Some nospaces_fn, s_message = Some ''No spaces, please.'',
       s_group = False, s_priority = None, s_remote = False,
       s_url = None, s_method = None, s_dataKey = None, s_isValidFn = None \<rparr>"

definition lookup_spec :: vspec where
  "lookup_spec = emailAvailable_spec \<lparr> s_priority := None \<rparr>"

definition email_registry :: registry where
  "email_registry =
     example_registry
       \<lparr> customValidators :=
           addValidator MessagesDefaults no_transport
             (addValidator MessagesDefaults no_transport Map.empty ''nospaces'' (Spec nospaces_spec))
             ''emailAvailable'' (Spec lookup_spec) \<rparr>"

definition nospaces_constraint :: constraint where
  "nospaces_constraint =
     \<lparr> c_name = ''nospaces'', requirements = JStr [],
       c_validator = Some (Validator MessagesDefaults ''nospaces'' (Some nospaces_fn)
                             (Some ''No spaces, please.'') False None),
       c_priority = 0 \<rparr>"

definition emailAvailable_constraint :: constraint where
  "emailAvailable_constraint =
     \<lparr> c_name = ''emailAvailable'', requirements = JStr [],
       c_validator = Some (as_validator (RemoteValidator MessagesDefaults ''emailAvailable'' lookup_spec)
                             no_transport),
       c_priority = 10 \<rparr>"





text \<open>
  A field with a remote check and no \<open>required\<close> rule, and the field it becomes when
  two evaluations overlap: the check of \<open>a@b.com\<close> is pending, the user empties the
  field to a blank, which is evaluated, and then the check fails.
\<close>

definition email_field :: field where
  "email_field = new_field ''email'' ''text'' (JStr ''a@b.com'') [emailAvailable_constraint]"

definition stale_email :: field where
  "stale_email = after (overlapped True example_page 0 email_field (JStr [CHR 0x20]))"

text \<open>A predicate that throws, and a constraint with it.\<close>

definition throwing_fn :: "jsval list \<Rightarrow> fn_result" where
  "throwing_fn args = Throws (JError ''x is not defined'')"

definition broken_constraint :: constraint where
  "broken_constraint =
     \<lparr> c_name = ''broken'', requirements = JStr [],
       c_validator = Some (Validator MessagesDefaults ''broken'' (Some throwing_fn) None False None),
       c_priority = 0 \<rparr>"

text \<open>
  A predicate that passes \<open>ok\<close> and throws on any other string, a constraint with it,
  and a field with that constraint which was evaluated while it held \<open>ok\<close>, and whose
  element has since taken the value \<open>bad\<close>.
\<close>

definition picky_fn :: "jsval list \<Rightarrow> fn_result" where
  "picky_fn args =
     (case args of
        JStr v # _ \<Rightarrow> if v = ''ok'' then Sync (JBool True) else Throws (JError ''v.code is undefined'')
      | _ \<Rightarrow> Sync (JBool False))"

definition picky_constraint :: constraint where
  "picky_constraint =
     \<lparr> c_name = ''picky'', requirements = JStr [],
       c_validator = Some (Validator MessagesDefaults ''picky'' (Some picky_fn) None False None),
       c_priority = 0 \<rparr>"

definition picky_field :: field where
  "picky_field =
     (after (whenValidate True example_page 10
               (new_field ''code'' ''text'' (JStr ''ok'') [picky_constraint])))
       \<lparr> elem_value := JStr ''bad'' \<rparr>"

text \<open>The fields none of whose constraints throws on the value they hold.\<close>

definition throws_none :: "field \<Rightarrow> bool" where
  "throws_none f =
     list_all (\<lambda>c. case fst (validateConstraint c (elem_value f) (customErrorMessage f)) of
                      Thrown e \<Rightarrow> False | Returned p \<Rightarrow> True)
       (constraints f)"

text \<open>A predicate that throws \<open>null\<close>, and a constraint with it.\<close>

definition null_fn :: "jsval list \<Rightarrow> fn_result" where
  "null_fn args = Throws JNull"

definition null_constraint :: constraint where
  "null_constraint =
     \<lparr> c_name = ''odd'', requirements = JStr [],
       c_validator = Some (Validator MessagesDefaults ''odd'' (Some null_fn) None False None),
       c_priority = 0 \<rparr>"

text \<open>The verdict of an evaluation: its promise resolves or rejects. And whether a list
  of items passes under a strategy, that is whether running it resolves.\<close>

fun is_valid :: "'a settle \<Rightarrow> bool" where
  "is_valid (Fulfilled v) = True"
| "is_valid (Rejected r) = False"

definition passes :: "bool \<Rightarrow> ('s \<Rightarrow> 'a settle result \<times> 's) list \<Rightarrow> 's \<Rightarrow> bool" where
  "passes stopAtFirstError items s =
     (case run_items stopAtFirstError items s of
        (Returned (Fulfilled vs), s') \<Rightarrow> True
      | _ \<Rightarrow> False)"

text \<open>A field with two rules, \<open>startsWith\<close> (priority 60) before \<open>nospaces\<close>
  (priority 0).\<close>

definition code_field :: "string \<Rightarrow> field" where
  "code_field v = new_field ''code'' ''text'' (JStr v) [nospaces_constraint, startsWith_constraint]"

text \<open>
  A plain group whose only child is a multiple select, with a rule of its own that
  passes when a child has a value. \<open>reread\<close> is a later read of the children's values:
  \<open>val()\<close> returns a new array each time. \<open>tags_second\<close> is the group after a first
  evaluation, when its child is read again and holds the same selection.
\<close>

definition anyFilled_fn :: "jsval list \<Rightarrow> fn_result" where
  "anyFilled_fn args =
     (case args of JArr _ xs # _ \<Rightarrow> Sync (JBool (list_ex truthy xs)) | _ \<Rightarrow> Sync (JBool False))"

definition anyFilled_constraint :: constraint where
  "anyFilled_constraint =
     \<lparr> c_name = ''anyFilled'', requirements = JStr [],
       c_validator = Some (Validator MessagesDefaults ''anyFilled'' (Some anyFilled_fn)
                             (Some ''Fill in at least one.'') True None),
       c_priority = 0 \<rparr>"

definition tags_group :: "jsval \<Rightarrow> groupfield" where
  "tags_group v =
     \<lparr> g_field = new_field ''tags'' [] JUndef [anyFilled_constraint],
       children = [new_field ''tags_list'' ''select-multiple'' v []],
       multipleType = None \<rparr>"

definition reread :: "jsval \<Rightarrow> groupfield \<Rightarrow> groupfield" where
  "reread v g = g \<lparr> children := map (\<lambda>c. c \<lparr> elem_value := v \<rparr>) (children g) \<rparr>"

definition tags_second :: groupfield where
  "tags_second =
     reread (JArr 7 [JStr ''a'', JStr ''b''])
       (after (fst (whenValidateGroup True example_page 10 (tags_group (JArr 2 [JStr ''a'', JStr ''b''])))))"



text \<open>The values that hold no array inside an array and no object: what every field has
  but a plain group with an array-valued child.\<close>

fun flat :: "jsval \<Rightarrow> bool" where
  "flat (JArr _ xs) = list_all (\<lambda>x. \<not> isArray x \<and> (case x of JObj _ _ \<Rightarrow> False | _ \<Rightarrow> True)) xs"
| "flat (JObj _ _) = False"
| "flat _ = True"

section \<open>Properties\<close>

subsection \<open>Strings\<close>

lemma strip_Nil [simp]: "strip ws [] = []"
proof -
  have "find (\<lambda>w. w \<noteq> [] \<and> prefix w []) ws = None"
    by (simp add: find_None_iff)
  then show ?thesis by (simp add: strip.simps [of ws "[]"])
qed

lemma trim_Nil [simp]: "trim [] = []"
  by (simp add: trim_def)

lemma strip_no_match:
  assumes "\<forall>w \<in> set ws. w \<noteq> [] \<longrightarrow> hd w \<noteq> a"
  shows "strip ws (a # s) = a # s"
proof -
  have "find (\<lambda>w. w \<noteq> [] \<and> prefix w (a # s)) ws = None"
    using assms by (auto simp: find_None_iff prefix_def Cons_eq_append_conv)
  then show ?thesis by (simp add: strip.simps [of ws "a # s"])
qed

lemma strip_printable:
  assumes "33 \<le> (of_char a :: nat)" and "(of_char a :: nat) \<le> 126"
  shows "strip whitespace (a # s) = a # s" and "strip (map rev whitespace) (a # s) = a # s"
proof -
  have "\<forall>w \<in> set whitespace. w \<noteq> [] \<longrightarrow> hd w \<noteq> a"
    using assms by (auto simp: whitespace_def)
  then show "strip whitespace (a # s) = a # s" by (rule strip_no_match)
  have "\<forall>w \<in> set (map rev whitespace). w \<noteq> [] \<longrightarrow> hd w \<noteq> a"
    using assms by (auto simp: whitespace_def)
  then show "strip (map rev whitespace) (a # s) = a # s" by (rule strip_no_match)
qed

text \<open>A string that starts and ends with a printable ASCII character other than the
  space is left as it is by \<open>trim\<close>.\<close>

lemma trim_printable:
  assumes "s \<noteq> []"
    and "33 \<le> (of_char (hd s) :: nat)" and "(of_char (hd s) :: nat) \<le> 126"
    and "33 \<le> (of_char (last s) :: nat)" and "(of_char (last s) :: nat) \<le> 126"
  shows "trim s = s"
proof -
  from assms(1) obtain a t where s: "s = a # t" by (cases s) auto
  have front: "strip whitespace s = s"
    using strip_printable(1) [of a t] assms(2,3) by (simp add: s)
  have r: "rev s = last s # rev (butlast s)"
    using assms(1) by (metis append_butlast_last_id rev.simps(2) rev_append rev_rev_ident rev_singleton_conv append_Cons append_Nil)
  have "strip (map rev whitespace) (rev s) = rev s"
    using strip_printable(2) [of "last s" "rev (butlast s)"] assms(4,5) by (simp add: r)
  then show ?thesis by (simp add: trim_def front)
qed

lemma trim_names:
  "trim ''startsWith'' = ''startsWith''" "trim ''nospaces'' = ''nospaces''"
  "trim ''emailAvailable'' = ''emailAvailable''" "trim ''xyz'' = ''xyz''"
  "trim ''ABC1'' = ''ABC1''" "trim ''ABC'' = ''ABC''" "trim ''abc'' = ''abc''"
  "trim '',Bern'' = '',Bern''" "trim ''a,b'' = ''a,b''" "trim ''a@b.com'' = ''a@b.com''"
  by (simp_all add: trim_printable)

text \<open>White space goes from both ends, and only from the ends.\<close>

lemma trim_examples:
  "trim [CHR 0x20, CHR ''a'', CHR 0x20, CHR ''b'', CHR 0xC2, CHR 0xA0, CHR 0x09] = ''a b''"
  "trim [CHR 0xE3, CHR 0x80, CHR 0x80, CHR 0xC3, CHR 0xA0] = [CHR 0xC3, CHR 0xA0]"
  by (simp_all add: trim_def strip.simps whitespace_def)

lemma toString_examples:
  "toString (JError []) = ''Error''" "toString (JError ''x'') = ''Error: x''"
  "toString (JArr 0 [JStr ''a'', JNull, JArr 1 [JStr ''b'', JUndef]]) = ''a,,b,''"
  by simp_all

lemma whitespace_prefix_free:
  "\<forall>w \<in> set whitespace. \<forall>w' \<in> set whitespace. prefix w' w \<longrightarrow> w' = w"
  by (simp add: whitespace_def)

lemma whitespace_not_Nil: "w \<in> set whitespace \<Longrightarrow> w \<noteq> []"
  by (auto simp: whitespace_def)

lemma strip_whitespace_concat:
  assumes "set cs \<subseteq> set whitespace"
  shows "strip whitespace (concat cs) = []"
  using assms
proof (induction cs)
  case Nil
  then show ?case by simp
next
  case (Cons w cs)
  from Cons.prems have w: "w \<in> set whitespace" and cs: "set cs \<subseteq> set whitespace"
    by simp_all
  let ?s = "w @ concat cs"
  have "\<exists>x \<in> set whitespace. x \<noteq> [] \<and> prefix x ?s"
    using w whitespace_not_Nil [OF w] by auto
  then obtain w' where f: "find (\<lambda>x. x \<noteq> [] \<and> prefix x ?s) whitespace = Some w'"
    by (cases "find (\<lambda>x. x \<noteq> [] \<and> prefix x ?s) whitespace") (auto simp: find_None_iff)
  then have w': "w' \<in> set whitespace" and p: "prefix w' ?s"
    by (auto simp: find_Some_iff)
  have "prefix w ?s" by simp
  with p have "prefix w' w \<or> prefix w w'"
    by (rule prefix_same_cases)
  with w w' whitespace_prefix_free have "w' = w" by blast
  then have "strip whitespace ?s = strip whitespace (concat cs)"
    using f by (simp add: strip.simps [of whitespace ?s])
  with Cons.IH [OF cs] show ?case by simp
qed

lemma trim_whitespace:
  assumes "set cs \<subseteq> set whitespace"
  shows "trim (concat cs) = []"
  by (simp add: trim_def strip_whitespace_concat [OF assms])

subsection \<open>Object literals\<close>

lemma char_of_digit:
  "char_of (48 :: nat) = CHR ''0''" "char_of (49 :: nat) = CHR ''1''" "char_of (50 :: nat) = CHR ''2''"
  by (simp_all add: char_of_def bit_Suc_0_iff)

lemma dec_digits: "list_all is_digit (dec n)"
proof (induction n rule: dec.induct)
  case (1 n)
  then show ?case by (cases "n < 10") (simp_all add: dec.simps [of n] is_digit_def)
qed

lemma dec_value: "numeral_value (dec n) = n"
proof (induction n rule: dec.induct)
  case (1 n)
  show ?case
  proof (cases "n < 10")
    case True
    then show ?thesis by (simp add: dec.simps [of n] numeral_value_def)
  next
    case False
    with 1 have "numeral_value (dec (n div 10)) = n div 10" by simp
    then show ?thesis
      using False by (simp add: dec.simps [of n] numeral_value_def)
  qed
qed

lemma dec_not_Nil: "dec n \<noteq> []"
  by (simp add: dec.simps [of n])

lemma dec_canonical: "dec n = ''0'' \<or> hd (dec n) \<noteq> CHR ''0''"
proof (induction n rule: dec.induct)
  case (1 n)
  show ?case
  proof (cases "n < 10")
    case True
    show ?thesis
    proof (cases "n = 0")
      case True
      then show ?thesis by (simp add: dec.simps [of 0] char_of_digit)
    next
      case False
      have "(of_char (char_of (48 + n) :: char) :: nat) \<noteq> of_char CHR ''0''"
        using \<open>n < 10\<close> False by simp
      then have "char_of (48 + n) \<noteq> CHR ''0''" by metis
      then show ?thesis using True by (simp add: dec.simps [of n])
    qed
  next
    case False
    with 1 have ih: "dec (n div 10) = ''0'' \<or> hd (dec (n div 10)) \<noteq> CHR ''0''" by simp
    have "dec (n div 10) \<noteq> ''0''"
    proof
      assume "dec (n div 10) = ''0''"
      then have "numeral_value (dec (n div 10)) = 0" by (simp add: numeral_value_def)
      with dec_value [of "n div 10"] False show False by simp
    qed
    with ih have "hd (dec (n div 10)) \<noteq> CHR ''0''" by simp
    then show ?thesis
      using False dec_not_Nil [of "n div 10"] by (simp add: dec.simps [of n])
  qed
qed

text \<open>The numeral of a number below \<open>2\<^sup>3\<^sup>2 - 1\<close> is an array index, that number.\<close>

lemma array_index_dec: "n < 2 ^ 32 - 1 \<Longrightarrow> array_index (dec n) = Some n"
  using dec_canonical [of n] by (simp add: array_index_def dec_digits dec_value dec_not_Nil)

lemma map_of_obj_set: "map_of (obj_set kvs k v) = (map_of kvs)(k \<mapsto> v)"
  by (induction kvs k v rule: obj_set.induct) auto

lemma map_of_fold_obj_set:
  "map_of (fold (\<lambda>(k, v) acc. obj_set acc k v) extra obj) = map_of obj ++ map_of (rev extra)"
proof (induction extra arbitrary: obj)
  case Nil
  then show ?case by simp
next
  case (Cons a extra)
  obtain k v where a: "a = (k, v)" by (cases a)
  have "map_of (fold (\<lambda>(k, v) acc. obj_set acc k v) (a # extra) obj)
        = map_of (obj_set obj k v) ++ map_of (rev extra)"
    using Cons.IH [of "obj_set obj k v"] by (simp add: a)
  also have "\<dots> = (map_of obj ++ [k \<mapsto> v]) ++ map_of (rev extra)"
    by (simp add: map_of_obj_set)
  also have "\<dots> = map_of obj ++ ([k \<mapsto> v] ++ map_of (rev extra))"
    by (simp only: map_add_assoc)
  also have "[k \<mapsto> v] ++ map_of (rev extra) = map_of (rev (a # extra))"
    by (simp add: a)
  finally show ?case .
qed

lemma map_of_spread: "map_of (spread obj extra) = map_of obj ++ map_of (rev extra)"
  by (simp only: spread_def map_of_fold_obj_set)

text \<open>A new key that is no array index goes to the end; a new array index goes after
  the smaller indices and before everything else.\<close>

lemma obj_set_named:
  assumes "array_index k = None" and "k \<notin> fst ` set acc"
  shows "obj_set acc k x = acc @ [(k, x)]"
  using assms by (induction acc) (auto simp: listed_before_def)

lemma obj_set_index:
  assumes "\<forall>k' \<in> fst ` set pre. \<exists>j. array_index k' = Some j \<and> j < m"
    and "array_index k = Some m" and "array_index dk = None"
  shows "obj_set (pre @ [(dk, v)]) k x = pre @ [(k, x), (dk, v)]"
  using assms
proof (induction pre)
  case Nil
  then show ?case by (auto simp: listed_before_def)
next
  case (Cons a pre)
  obtain k' v' where a: "a = (k', v')" by (cases a)
  from Cons.prems(1) a obtain j where j: "array_index k' = Some j" "j < m" by auto
  with Cons.prems(2) have ne: "k' \<noteq> k" by auto
  have nb: "\<not> listed_before k k'"
    using j Cons.prems(2) by (simp add: listed_before_def)
  from Cons.IH Cons.prems have "obj_set (pre @ [(dk, v)]) k x = pre @ [(k, x), (dk, v)]"
    by simp
  then show ?case
    using ne nb by (simp add: a)
qed

lemma spread_indexed:
  assumes "\<forall>k' \<in> fst ` set pre. \<exists>j. array_index k' = Some j \<and> j < m"
    and "m + length xs < 2 ^ 32" and "array_index dk = None"
  shows "fold (\<lambda>(k, v) acc. obj_set acc k v) (map (\<lambda>(i, x). (dec i, x)) (enumerate m xs))
           (pre @ [(dk, v)])
         = pre @ map (\<lambda>(i, x). (dec i, x)) (enumerate m xs) @ [(dk, v)]"
  using assms
proof (induction xs arbitrary: m pre)
  case Nil
  then show ?case by simp
next
  case (Cons x xs)
  have m: "array_index (dec m) = Some m"
    using Cons.prems(2) by (intro array_index_dec) simp
  have step: "obj_set (pre @ [(dk, v)]) (dec m) x = (pre @ [(dec m, x)]) @ [(dk, v)]"
    using obj_set_index [OF Cons.prems(1) m Cons.prems(3)] by simp
  have pre': "\<forall>k' \<in> fst ` set (pre @ [(dec m, x)]). \<exists>j. array_index k' = Some j \<and> j < Suc m"
    using Cons.prems(1) m by (auto intro: less_SucI)
  have "Suc m + length xs < 2 ^ 32"
    using Cons.prems(2) by simp
  from Cons.IH [OF pre' this Cons.prems(3)] show ?case
    by (simp add: step)
qed

lemma spread_array:
  assumes "length xs < 2 ^ 32" and "array_index dk = None"
  shows "spread [(dk, v)] (own_props (JArr i xs)) = own_props (JArr i xs) @ [(dk, v)]"
  using spread_indexed [of "[]" 0 xs dk v] assms by (simp add: spread_def)

lemma spread_named:
  assumes "distinct (map fst kvs)" and "\<forall>k \<in> fst ` set kvs. array_index k = None"
    and "\<forall>k \<in> fst ` set acc. k \<notin> fst ` set kvs \<and> k \<noteq> dk"
  shows "fold (\<lambda>(k, v) acc. obj_set acc k v) kvs ((dk, y) # acc)
         = (dk, case map_of kvs dk of Some x \<Rightarrow> x | None \<Rightarrow> y) # acc @ filter (\<lambda>p. fst p \<noteq> dk) kvs"
  using assms
proof (induction kvs arbitrary: y acc)
  case Nil
  then show ?case by simp
next
  case (Cons a kvs)
  obtain k x where a: "a = (k, x)" by (cases a)
  from Cons.prems(1) a have d: "distinct (map fst kvs)" and nk: "k \<notin> fst ` set kvs" by auto
  from Cons.prems(2) a have named: "\<forall>k \<in> fst ` set kvs. array_index k = None" and nm: "array_index k = None"
    by auto
  show ?case
  proof (cases "k = dk")
    case True
    have acc: "\<forall>k \<in> fst ` set acc. k \<notin> fst ` set kvs \<and> k \<noteq> dk"
      using Cons.prems(3) by auto
    have "map_of kvs dk = None"
      using nk True by (simp add: map_of_eq_None_iff)
    with Cons.IH [OF d named acc, of x] show ?thesis
      by (simp add: a True)
  next
    case False
    have nacc: "k \<notin> fst ` set acc"
      using Cons.prems(3) a by auto
    have step: "obj_set ((dk, y) # acc) k x = (dk, y) # (acc @ [(k, x)])"
      using False nm obj_set_named [OF nm nacc, of x] by (simp add: listed_before_def)
    have acc': "\<forall>k' \<in> fst ` set (acc @ [(k, x)]). k' \<notin> fst ` set kvs \<and> k' \<noteq> dk"
      using Cons.prems(3) nk False a by auto
    have "fold (\<lambda>(k, v) acc. obj_set acc k v) (a # kvs) ((dk, y) # acc)
          = fold (\<lambda>(k, v) acc. obj_set acc k v) kvs (obj_set ((dk, y) # acc) k x)"
      by (simp add: a del: obj_set.simps)
    also have "\<dots> = fold (\<lambda>(k, v) acc. obj_set acc k v) kvs ((dk, y) # (acc @ [(k, x)]))"
      by (simp only: step)
    also have "\<dots> = (dk, case map_of kvs dk of Some x \<Rightarrow> x | None \<Rightarrow> y)
                      # (acc @ [(k, x)]) @ filter (\<lambda>p. fst p \<noteq> dk) kvs"
      by (rule Cons.IH [OF d named acc'])
    finally show ?thesis
      using False by (simp add: a)
  qed
qed

lemma spread_object:
  assumes "distinct (map fst kvs)" and "\<forall>k \<in> fst ` set kvs. array_index k = None"
  shows "spread [(dk, v)] (own_props (JObj i kvs))
         = (dk, case map_of kvs dk of Some x \<Rightarrow> x | None \<Rightarrow> v) # filter (\<lambda>p. fst p \<noteq> dk) kvs"
  using spread_named [OF assms, of "[]" dk v] by (simp add: spread_def)

lemmas key_eval = dec.simps char_of_digit listed_before_def array_index_def is_digit_def
  numeral_value_def unit_length_def

lemma own_props_extra:
  "own_props (js_or (if truthy reqs then get_prop ''extra'' reqs else reqs) (JObj 0 []))
   = own_props (get_prop ''extra'' reqs)"
proof (cases "truthy reqs")
  case True
  then show ?thesis
    by (cases "get_prop ''extra'' reqs") (simp_all add: js_or_def)
next
  case False
  then show ?thesis by (cases reqs) (simp_all add: js_or_def)
qed

lemma units_examples:
  "units [CHR 0xC3, CHR 0xA9, CHR ''z'', CHR 0xE2, CHR 0x82, CHR 0xAC]
   = [[CHR 0xC3, CHR 0xA9], ''z'', [CHR 0xE2, CHR 0x82, CHR 0xAC]]"
  by (simp add: unit_length_def)

lemma array_index_examples:
  "array_index ''4294967294'' = Some 4294967294" "array_index ''4294967295'' = None"
  "array_index ''01'' = None" "array_index ''0'' = Some 0" "array_index ''value'' = None"
  "array_index [] = None" "dec 4294967294 = ''4294967294''"
  by (simp_all add: key_eval char_of_def bit_Suc_0_iff)

lemma obj_set_examples:
  "obj_set [(''b'', JNull), (''a'', JNull)] ''1'' JUndef = [(''1'', JUndef), (''b'', JNull), (''a'', JNull)]"
  "obj_set [(''1'', JNull), (''b'', JNull)] ''0'' JUndef = [(''0'', JUndef), (''1'', JNull), (''b'', JNull)]"
  "obj_set [(''1'', JNull), (''b'', JNull)] ''2'' JUndef = [(''1'', JNull), (''2'', JUndef), (''b'', JNull)]"
  "obj_set [(''1'', JNull), (''b'', JNull)] ''b'' JUndef = [(''1'', JNull), (''b'', JUndef)]"
  "obj_set [(''1'', JNull), (''b'', JNull)] ''c'' JUndef = [(''1'', JNull), (''b'', JNull), (''c'', JUndef)]"
  by (simp_all add: key_eval)

subsection \<open>The remote request\<close>

text \<open>
  C6, as amended. A remote validator built from a specification that declares no
  \<open>method\<close> issues its request with method \<open>POST\<close>, the default of the constructor;
  any other method, \<open>GET\<close> included, is used only when the specification declares it.
\<close>

theorem remote_method_default:
  assumes "remote_request (RemoteValidator msgs n spec) v reqs = Some rq"
  shows "rq_method rq = (case s_method spec of None \<Rightarrow> ''POST'' | Some m \<Rightarrow> m)"
  using assms by (auto simp: remote_request_def RemoteValidator_def split: if_splits)

theorem remote_method_default_witness:
  "remote_request (RemoteValidator MessagesDefaults ''emailAvailable'' emailAvailable_spec)
     (JStr ''a@b.com'') JUndef
   = Some \<lparr> rq_url = JStr ''/api/users/email/available'', rq_method = ''POST'',
            rq_data = [(''email'', JStr ''a@b.com'')] \<rparr>
   \<and> rq_method \<lparr> rq_url = JStr ''/api/users/email/available'', rq_method = ''POST'',
                  rq_data = [(''email'', JStr ''a@b.com'')] \<rparr>
     = (case s_method emailAvailable_spec of None \<Rightarrow> ''POST'' | Some m \<Rightarrow> m)"
proof -
  have rq: "remote_request (RemoteValidator MessagesDefaults ''emailAvailable'' emailAvailable_spec)
              (JStr ''a@b.com'') JUndef
            = Some \<lparr> rq_url = JStr ''/api/users/email/available'', rq_method = ''POST'',
                     rq_data = [(''email'', JStr ''a@b.com'')] \<rparr>"
    by (simp add: remote_request_def RemoteValidator_def emailAvailable_spec_def resolvedUrl_def
        js_or_def spread_def)
  from rq remote_method_default [OF rq] show ?thesis by simp
qed

text \<open>The claim as stated fails: the documentation's example, which declares no method,
  is sent with \<open>POST\<close>, not \<open>GET\<close>.\<close>

theorem remote_method_not_get:
  "map_option rq_method
     (remote_request (RemoteValidator MessagesDefaults ''emailAvailable'' emailAvailable_spec)
        (JStr ''a@b.com'') JUndef) = Some ''POST''"
  by (simp add: remote_request_def RemoteValidator_def emailAvailable_spec_def resolvedUrl_def
      js_or_def)

text \<open>
  C7, as amended. The payload of the request is \<open>{ [dataKey]: value, ...extra }\<close>, where
  \<open>dataKey\<close> is the declared key taken literally (\<open>"*"\<close> included: the rule's name is
  never put in its place) and \<open>"value"\<close> when none is declared. Read as a map: an own
  property of \<open>extra\<close> wins; otherwise the key \<open>dataKey\<close> holds the value, and there is
  no other key. Without such a property the payload is \<open>{ [dataKey]: value }\<close>. The
  properties of an object \<open>extra\<close> whose keys are no array indices follow \<open>dataKey\<close> in
  their own order, and one of them under \<open>dataKey\<close> gives its value to that key; the
  elements of an array \<open>extra\<close> come first, under their indices, when \<open>dataKey\<close> is no
  array index.
\<close>

theorem remote_payload:
  assumes "remote_request (RemoteValidator msgs n spec) v reqs = Some rq"
  shows "dataKey (RemoteValidator msgs n spec) = (case s_dataKey spec of None \<Rightarrow> ''value'' | Some d \<Rightarrow> d)
         \<and> map_of (rq_data rq) k
           = (case map_of (rev (own_props (get_prop ''extra'' reqs))) k of
                Some x \<Rightarrow> Some x
              | None \<Rightarrow> if k = dataKey (RemoteValidator msgs n spec) then Some v else None)
         \<and> (own_props (get_prop ''extra'' reqs) = []
              \<longrightarrow> rq_data rq = [(dataKey (RemoteValidator msgs n spec), v)])
         \<and> (get_prop ''extra'' reqs = JObj i kvs \<and> distinct (map fst kvs)
              \<and> (\<forall>k \<in> fst ` set kvs. array_index k = None)
              \<longrightarrow> rq_data rq
                    = (dataKey (RemoteValidator msgs n spec),
                       case map_of kvs (dataKey (RemoteValidator msgs n spec)) of
                         Some x \<Rightarrow> x | None \<Rightarrow> v)
                      # filter (\<lambda>p. fst p \<noteq> dataKey (RemoteValidator msgs n spec)) kvs)
         \<and> (get_prop ''extra'' reqs = JArr i xs \<and> length xs < 2 ^ 32
              \<and> array_index (dataKey (RemoteValidator msgs n spec)) = None
              \<longrightarrow> rq_data rq
                    = map (\<lambda>(j, x). (dec j, x)) (enumerate 0 xs)
                      @ [(dataKey (RemoteValidator msgs n spec), v)])"
proof -
  let ?dk = "dataKey (RemoteValidator msgs n spec)"
  let ?extra = "get_prop ''extra'' reqs"
  have dk: "?dk = (case s_dataKey spec of None \<Rightarrow> ''value'' | Some d \<Rightarrow> d)"
    by (simp add: RemoteValidator_def split: option.splits)
  have data: "rq_data rq = spread [(?dk, v)] (own_props ?extra)"
    using assms by (auto simp: remote_request_def own_props_extra split: if_splits)
  have "map_of (rq_data rq) k = (map_of [(?dk, v)] ++ map_of (rev (own_props ?extra))) k"
    by (simp only: data map_of_spread)
  then have m: "map_of (rq_data rq) k
           = (case map_of (rev (own_props ?extra)) k of
                Some x \<Rightarrow> Some x
              | None \<Rightarrow> if k = ?dk then Some v else None)"
    by (simp add: map_add_def split: option.splits)
  have e: "own_props ?extra = [] \<longrightarrow> rq_data rq = [(?dk, v)]"
    by (simp add: data spread_def)
  have ob: "?extra = JObj i kvs \<and> distinct (map fst kvs)
              \<and> (\<forall>k \<in> fst ` set kvs. array_index k = None)
            \<longrightarrow> rq_data rq = (?dk, case map_of kvs ?dk of Some x \<Rightarrow> x | None \<Rightarrow> v)
                                # filter (\<lambda>p. fst p \<noteq> ?dk) kvs"
    using spread_object [of kvs ?dk v i] by (simp add: data)
  have ar: "?extra = JArr i xs \<and> length xs < 2 ^ 32 \<and> array_index ?dk = None
            \<longrightarrow> rq_data rq = map (\<lambda>(j, x). (dec j, x)) (enumerate 0 xs) @ [(?dk, v)]"
    using spread_array [of xs ?dk v i] by (simp add: data)
  from dk m e ob ar show ?thesis by blast
qed

theorem remote_payload_witness:
  "remote_request (RemoteValidator MessagesDefaults ''emailAvailable'' emailAvailable_spec)
     (JStr ''a@b.com'')
     (JObj 1 [(''url'', JStr ''/check''), (''extra'', JObj 2 [(''clientId'', JStr ''123'')])])
   = Some \<lparr> rq_url = JStr ''/api/users/email/available'', rq_method = ''POST'',
            rq_data = [(''email'', JStr ''a@b.com''), (''clientId'', JStr ''123'')] \<rparr>
   \<and> map_of [(''email'', JStr ''a@b.com''), (''clientId'', JStr ''123'')] ''email''
     = Some (JStr ''a@b.com'')
   \<and> remote_request (RemoteValidator MessagesDefaults ''emailAvailable'' emailAvailable_spec)
        (JStr ''a@b.com'')
        (JObj 1 [(''extra'', JArr 2 [JStr ''x'', JStr ''y''])])
     = Some \<lparr> rq_url = JStr ''/api/users/email/available'', rq_method = ''POST'',
              rq_data = [(''0'', JStr ''x''), (''1'', JStr ''y''), (''email'', JStr ''a@b.com'')] \<rparr>
   \<and> remote_request (RemoteValidator MessagesDefaults ''emailAvailable'' emailAvailable_spec)
        (JStr ''a@b.com'')
        (JObj 1 [(''extra'', JStr [CHR 0xC3, CHR 0xA9, CHR ''z''])])
     = Some \<lparr> rq_url = JStr ''/api/users/email/available'', rq_method = ''POST'',
              rq_data = [(''0'', JStr [CHR 0xC3, CHR 0xA9]), (''1'', JStr ''z''),
                         (''email'', JStr ''a@b.com'')] \<rparr>"
proof -
  let ?reqs = "JObj 1 [(''url'', JStr ''/check''), (''extra'', JObj 2 [(''clientId'', JStr ''123'')])]"
  let ?rq = "\<lparr> rq_url = JStr ''/api/users/email/available'', rq_method = ''POST'',
               rq_data = [(''email'', JStr ''a@b.com''), (''clientId'', JStr ''123'')] \<rparr>"
  have rq: "remote_request (RemoteValidator MessagesDefaults ''emailAvailable'' emailAvailable_spec)
              (JStr ''a@b.com'') ?reqs = Some ?rq"
    by (simp add: remote_request_def RemoteValidator_def emailAvailable_spec_def resolvedUrl_def
        js_or_def spread_def key_eval)
  have ar: "remote_request (RemoteValidator MessagesDefaults ''emailAvailable'' emailAvailable_spec)
        (JStr ''a@b.com'')
        (JObj 1 [(''extra'', JArr 2 [JStr ''x'', JStr ''y''])])
     = Some \<lparr> rq_url = JStr ''/api/users/email/available'', rq_method = ''POST'',
              rq_data = [(''0'', JStr ''x''), (''1'', JStr ''y''), (''email'', JStr ''a@b.com'')] \<rparr>"
    by (simp add: remote_request_def RemoteValidator_def emailAvailable_spec_def resolvedUrl_def
        js_or_def spread_def key_eval)
  have st: "remote_request (RemoteValidator MessagesDefaults ''emailAvailable'' emailAvailable_spec)
        (JStr ''a@b.com'')
        (JObj 1 [(''extra'', JStr [CHR 0xC3, CHR 0xA9, CHR ''z''])])
     = Some \<lparr> rq_url = JStr ''/api/users/email/available'', rq_method = ''POST'',
              rq_data = [(''0'', JStr [CHR 0xC3, CHR 0xA9]), (''1'', JStr ''z''),
                         (''email'', JStr ''a@b.com'')] \<rparr>"
    by (simp add: remote_request_def RemoteValidator_def emailAvailable_spec_def resolvedUrl_def
        js_or_def spread_def key_eval)
  from remote_payload [OF rq, of "''email''"] rq ar st show ?thesis
    by (simp add: emailAvailable_spec_def)
qed

text \<open>The claim as stated fails: a validator named \<open>uniquePhone\<close> and keyed by \<open>"*"\<close>
  sends the value under the key \<open>"*"\<close>, not under its own name.\<close>

theorem remote_payload_star_key:
  "map_option rq_data
     (remote_request (RemoteValidator MessagesDefaults ''uniquePhone'' uniquePhone_spec)
        (JStr ''0791234567'') (JStr ''/api/clients/check/phone''))
   = Some [(''*'', JStr ''0791234567'')]"
  by (simp add: remote_request_def RemoteValidator_def uniquePhone_spec_def resolvedUrl_def
      js_or_def spread_def)

subsection \<open>Messages and validation errors\<close>

lemma not_in_prototype:
  "''startsWith'' \<notin> set Object_prototype" "''required'' \<notin> set Object_prototype"
  "''nospaces'' \<notin> set Object_prototype" "''emailAvailable'' \<notin> set Object_prototype"
  "''foo'' \<notin> set Object_prototype"
  by (simp_all add: Object_prototype_def)




text \<open>A rule named after a member of \<open>Object.prototype\<close> cannot be registered, and a
  constraint for it throws when it is evaluated.\<close>

lemma prototype_member_rule:
  "addValidator MessagesDefaults no_transport Map.empty ''toString'' (Spec startsWith_spec) = Map.empty"
  "isStandardConstraint ''toString'' r"
  "Constraint example_registry ''toString'' (JStr [])
   = Returned \<lparr> c_name = ''toString'', requirements = JStr [], c_validator = None, c_priority = 0 \<rparr>"
  "validateConstraint
     \<lparr> c_name = ''toString'', requirements = JStr [], c_validator = None, c_priority = 0 \<rparr> v cu
   = (Thrown (JError ''this.validator.validate is not a function''), [])"
  "validateConstraint
     \<lparr> c_name = ''unknown'', requirements = JStr [], c_validator = None, c_priority = 0 \<rparr> v cu
   = (Thrown (JError ''Validator not found''), [])"
proof -
  have tr: "trim ''toString'' = ''toString''"
    by (simp add: trim_printable)
  have m: "''toString'' \<in> set Object_prototype" "''unknown'' \<notin> set Object_prototype"
    by (simp_all add: Object_prototype_def)
  show "addValidator MessagesDefaults no_transport Map.empty ''toString'' (Spec startsWith_spec) = Map.empty"
    by (simp add: addValidator_def tr m)
  show "isStandardConstraint ''toString'' r"
    by (simp add: isStandardConstraint_def m)
  have "customValidators example_registry ''toString'' = None"
    by (simp add: example_registry_def addValidator_def trim_names not_in_prototype)
  then show "Constraint example_registry ''toString'' (JStr [])
   = Returned \<lparr> c_name = ''toString'', requirements = JStr [], c_validator = None, c_priority = 0 \<rparr>"
    by (simp add: Constraint_def m)
  show "validateConstraint
     \<lparr> c_name = ''toString'', requirements = JStr [], c_validator = None, c_priority = 0 \<rparr> v cu
   = (Thrown (JError ''this.validator.validate is not a function''), [])"
    by (simp add: validateConstraint_def m)
  show "validateConstraint
     \<lparr> c_name = ''unknown'', requirements = JStr [], c_validator = None, c_priority = 0 \<rparr> v cu
   = (Thrown (JError ''Validator not found''), [])"
    by (simp add: validateConstraint_def m)
qed

text \<open>What \<open>formatMessage\<close> does with a template and a requirement.\<close>

lemma split_at_ps_append:
  assumes "split_at_ps pre = None"
  shows "split_at_ps (pre @ ''%s'' @ post) = Some (pre, ''%s'', post)"
  using assms by (induction pre rule: split_at_ps.induct) (auto split: if_splits)


lemma getSubstitution_plain:
  assumes "CHR ''$'' \<notin> set r"
  shows "getSubstitution m pre post r = r"
  using assms by (induction m pre post r rule: getSubstitution.induct) auto



lemma formatMessage_one:
  assumes "split_at_ps pre = None" and "CHR ''$'' \<notin> set r"
  shows "formatMessage (JStr (pre @ ''%s'' @ post)) (JStr r) = JStr (pre @ r @ post)"
proof -
  have "split_at_ps (pre @ ''%s'' @ post) = Some (pre, ''%s'', post)"
    using assms(1) by (rule split_at_ps_append)
  then show ?thesis
    using assms(2) by (simp add: replace_ps_def getSubstitution_plain)
qed

lemma formatMessage_two:
  assumes "split_at_ps pre = None" and "CHR ''$'' \<notin> set r1"
    and "split_at_ps (pre @ r1 @ mid) = None" and "CHR ''$'' \<notin> set r2"
  shows "formatMessage (JStr (pre @ ''%s'' @ mid @ ''%s'' @ post)) (JArr i [JStr r1, JStr r2])
         = JStr (pre @ r1 @ mid @ r2 @ post)"
proof -
  have one: "formatMessage (JStr (pre @ ''%s'' @ (mid @ ''%s'' @ post))) (JStr r1)
             = JStr (pre @ r1 @ (mid @ ''%s'' @ post))"
    using assms(1,2) by (rule formatMessage_one)
  have two: "formatMessage (JStr ((pre @ r1 @ mid) @ ''%s'' @ post)) (JStr r2)
             = JStr ((pre @ r1 @ mid) @ r2 @ post)"
    using assms(3,4) by (rule formatMessage_one)
  have "formatMessage (JStr (pre @ ''%s'' @ mid @ ''%s'' @ post)) (JArr i [JStr r1, JStr r2])
        = formatEach (JStr (pre @ ''%s'' @ mid @ ''%s'' @ post)) [JStr r1, JStr r2]"
    by simp
  also have "\<dots> = formatMessage (formatMessage (JStr (pre @ ''%s'' @ mid @ ''%s'' @ post)) (JStr r1)) (JStr r2)"
    by (simp only: formatEach.simps)
  also have "\<dots> = JStr (pre @ r1 @ mid @ r2 @ post)"
    using one two by (simp only: append_assoc)
  finally show ?thesis .
qed







subsection \<open>Whitespace, the cache and the skips of \<open>whenValidate\<close>\<close>

lemma empty_js_whitespace: "set cs \<subseteq> set whitespace \<Longrightarrow> empty_js (JStr (concat cs))"
  by (simp add: empty_js_def trim_whitespace)

lemma empty_js_cloneValue: "empty_js (cloneValue fresh v) = empty_js v"
  by (cases v) (simp_all add: empty_js_def)

lemma isRequired_handleUI [simp]: "isRequired (handleUI v f) = isRequired f"
  by (simp add: isRequired_def handleUI_def split: option.splits reason.splits)

lemma lastValidatedValue_handleUI [simp]: "lastValidatedValue (handleUI v f) = lastValidatedValue f"
  by (simp add: handleUI_def split: option.splits reason.splits)

lemma lastValidationState_handleUI [simp]: "lastValidationState (handleUI v f) = lastValidationState f"
  by (simp add: handleUI_def split: option.splits reason.splits)

lemma before_hook_Inl:
  assumes "before_hook pg fresh val f = Inl out"
  shows "started (trace out) = []"
    and "cached f val \<Longrightarrow> after out = f"
    and "cached f val \<Longrightarrow> settled out = (if lastValidationState f = Some True then Fulfilled val
                                               else Rejected (FieldRef (f_id f)))"
    and "\<not> cached f val \<Longrightarrow> settled out = Fulfilled val \<and> lastValidationState (after out) = Some True"
  using assms
  by (auto simp: before_hook_def resolveAsValid_def Let_def split: if_splits)

lemma before_hook_Inr:
  assumes "before_hook pg fresh val f = Inr (f1, w)"
  shows "f1 = f \<lparr> validationResult := Some (Errors []), lastValidatedValue := cloneValue fresh val \<rparr>"
    and "started w = []" and "logged w = snd (shouldValidate pg f1)"
    and "\<not> cached f val" and "\<not> is_checkbox_or_radio (elem_type f)"
    and "fst (shouldValidate pg f1)" and "constraints f \<noteq> []" and "elem_visible f"
    and "\<not> (empty_js val \<and> \<not> isRequired f)"
  using assms
  by (auto simp: before_hook_def Let_def isRequired_def split: if_splits)


lemma cached_answer:
  assumes "cached f (elem_value f)"
  shows "whenValidate stop pg fresh f
         = \<lparr> settled = (if lastValidationState f = Some True then Fulfilled (elem_value f)
                         else Rejected (FieldRef (f_id f))),
             after = f, trace = \<lparr> started = [], logged = [] \<rparr> \<rparr>"
  using assms by (simp add: whenValidate_def before_hook_def)

lemma areEquals_JStr: "areEquals (JStr s) b \<Longrightarrow> b = JStr s"
  by (cases b) (simp_all add: areEquals_def)

lemma whenValidate_whitespace:
  assumes ws: "set cs \<subseteq> set whitespace" and v: "elem_value f = JStr (concat cs)"
    and nr: "\<not> isRequired f"
  shows "started (trace (whenValidate stop pg fresh f)) = []
         \<and> (\<not> cached f (JStr (concat cs))
              \<longrightarrow> settled (whenValidate stop pg fresh f) = Fulfilled (JStr (concat cs))
                  \<and> lastValidationState (after (whenValidate stop pg fresh f)) = Some True)
         \<and> (cached f (JStr (concat cs))
              \<longrightarrow> settled (whenValidate stop pg fresh f)
                    = (if lastValidationState f = Some True then Fulfilled (JStr (concat cs))
                       else Rejected (FieldRef (f_id f)))
                  \<and> after (whenValidate stop pg fresh f) = f)"
proof (cases "before_hook pg fresh (JStr (concat cs)) f")
  case (Inl out)
  have out: "whenValidate stop pg fresh f = out"
    by (simp add: whenValidate_def v Inl)
  from before_hook_Inl [OF Inl] show ?thesis
    by (simp add: out)
next
  case (Inr p)
  obtain f1 w where p: "p = (f1, w)" by (cases p)
  from before_hook_Inr(9) [OF Inr [unfolded p]] nr empty_js_whitespace [OF ws]
  show ?thesis by simp
qed

lemma required_fails_on_empty:
  assumes c: "Constraint reg ''required'' reqs = Returned c"
    and nc: "customValidators reg ''required'' = None"
    and e: "empty_js val"
  shows "\<exists>m. validateConstraint c val custom
              = (Returned (Rejected (ValidationError ''required'' m)), [])"
proof -
  have std: "isStandardConstraint ''required'' reqs"
    by (simp add: isStandardConstraint_def standardValidators_def)
  from c nc std obtain v where v: "StandardValidator reg ''required'' reqs = Returned v"
    and cv: "c_validator c = Some v" and rq: "requirements c = reqs"
    by (auto simp: Constraint_def not_in_prototype split: result.splits)
  from v have fn: "validateFn v = Some (standard_validate reg ''required'')" and nm: "name v = ''required''"
    by (auto simp: StandardValidator_def Validator_def split: if_splits)
  have "standard_validate reg ''required''
          (case reqs of JArr _ rs \<Rightarrow> val # rs | _ \<Rightarrow> [val, reqs]) = Sync (JBool False)"
    using e by (cases reqs) (simp_all add: standard_validate_def)
  then show ?thesis
    by (simp add: validateConstraint_def cv rq validate_def fn reject_def nm)
qed

text \<open>
  C9, as amended. A string of white space only is empty for the engine: \<open>Utils.empty\<close>
  holds of it and the built-in \<open>required\<close> rule rejects it with a \<open>ValidationError\<close>.
  A field without a \<open>required\<close> constraint that holds it starts no constraint; it
  settles valid, and is cached as valid, whenever the evaluation is not answered from the
  cache. When the cache answers (the value is the last evaluated one and the state is
  known), the cached verdict is returned, valid or invalid, and the field is left as it
  was.
\<close>

theorem whitespace_is_empty:
  assumes "set cs \<subseteq> set whitespace"
  shows "empty_js (JStr (concat cs))
         \<and> (Constraint reg ''required'' reqs = Returned c \<and> customValidators reg ''required'' = None
              \<longrightarrow> (\<exists>m. validateConstraint c (JStr (concat cs)) custom
                          = (Returned (Rejected (ValidationError ''required'' m)), [])))
         \<and> (elem_value f = JStr (concat cs) \<and> \<not> isRequired f
              \<longrightarrow> started (trace (whenValidate stop pg fresh f)) = []
                  \<and> (\<not> cached f (JStr (concat cs))
                       \<longrightarrow> settled (whenValidate stop pg fresh f) = Fulfilled (JStr (concat cs))
                           \<and> lastValidationState (after (whenValidate stop pg fresh f)) = Some True)
                  \<and> (cached f (JStr (concat cs))
                       \<longrightarrow> settled (whenValidate stop pg fresh f)
                             = (if lastValidationState f = Some True then Fulfilled (JStr (concat cs))
                                else Rejected (FieldRef (f_id f)))
                           \<and> after (whenValidate stop pg fresh f) = f))"
  using empty_js_whitespace [OF assms] required_fails_on_empty [of reg reqs c "JStr (concat cs)" custom]
    whenValidate_whitespace [OF assms, of f stop pg fresh]
  by blast

lemma isRequired_update [simp]:
  "isRequired (f \<lparr> validationResult := a \<rparr>) = isRequired f"
  "isRequired (f \<lparr> lastValidationState := b \<rparr>) = isRequired f"
  "isRequired (f \<lparr> lastValidatedValue := c \<rparr>) = isRequired f"
  by (simp_all add: isRequired_def)

lemma required_constraint_built:
  "Constraint example_registry ''required'' (JStr ''true'') = Returned required_constraint"
proof -
  have tr: "trim ''startsWith'' = ''startsWith''"
    by (simp add: trim_names)
  have "customValidators example_registry ''required'' = None"
    by (simp add: example_registry_def addValidator_def tr)
  moreover have "getErrorMessage example_registry ''required'' (JStr ''true'') = ''This value is required.''"
    by (simp add: getErrorMessage_def example_registry_def MessagesDefaults_def)
  moreover have "map_of standardValidators ''required'' = Some 100"
    by (simp add: standardValidators_def)
  moreover have "requirementTypeOk example_registry ''required'' (JStr ''true'')"
    by (simp add: example_registry_def)
  moreover have "Messages example_registry = MessagesDefaults"
    by (simp add: example_registry_def)
  ultimately show ?thesis
    by (simp add: Constraint_def isStandardConstraint_def StandardValidator_def required_constraint_def
        Validator_def not_in_prototype)
qed

theorem whitespace_is_empty_witness:
  "set [[CHR 0x20], [CHR 0xE2, CHR 0x80, CHR 0x83], [CHR 0x09]] \<subseteq> set whitespace
   \<and> empty_js (JStr [CHR 0x20, CHR 0xE2, CHR 0x80, CHR 0x83, CHR 0x09])
   \<and> validateConstraint required_constraint (JStr [CHR 0x20, CHR 0xE2, CHR 0x80, CHR 0x83, CHR 0x09]) JUndef
       = (Returned (Rejected (ValidationError ''required'' (JStr ''This value is required.''))), [])
   \<and> settled (whenValidate True example_page 0
                 (new_field ''code'' ''text'' (JStr [CHR 0x20, CHR 0xE2, CHR 0x80, CHR 0x83, CHR 0x09])
                    [startsWith_constraint]))
       = Fulfilled (JStr [CHR 0x20, CHR 0xE2, CHR 0x80, CHR 0x83, CHR 0x09])
   \<and> started (trace (whenValidate True example_page 0
                 (new_field ''code'' ''text'' (JStr [CHR 0x20, CHR 0xE2, CHR 0x80, CHR 0x83, CHR 0x09])
                    [startsWith_constraint])))
       = []"
proof -
  let ?cs = "[[CHR 0x20], [CHR 0xE2, CHR 0x80, CHR 0x83], [CHR 0x09]]"
  let ?s = "[CHR 0x20, CHR 0xE2, CHR 0x80, CHR 0x83, CHR 0x09]"
  let ?f = "new_field ''code'' ''text'' (JStr ?s) [startsWith_constraint]"
  have ws: "set ?cs \<subseteq> set whitespace"
    by (simp add: whitespace_def)
  have s: "concat ?cs = ?s"
    by simp
  have nc: "customValidators example_registry ''required'' = None"
    by (simp add: example_registry_def addValidator_def trim_names)
  have f: "elem_value ?f = JStr ?s \<and> \<not> isRequired ?f \<and> \<not> cached ?f (JStr ?s)"
    by (simp add: new_field_def isRequired_def startsWith_constraint_def cached_def)
  from whitespace_is_empty [OF ws, of example_registry "JStr ''true''" required_constraint JUndef ?f True
      example_page 0] required_constraint_built nc f
  obtain m where e: "empty_js (JStr ?s)"
    and r: "validateConstraint required_constraint (JStr ?s) JUndef
            = (Returned (Rejected (ValidationError ''required'' m)), [])"
    and w: "settled (whenValidate True example_page 0 ?f) = Fulfilled (JStr ?s)"
           "started (trace (whenValidate True example_page 0 ?f)) = []"
    unfolding s by auto
  have "validateConstraint required_constraint (JStr ?s) JUndef
        = (Returned (Rejected (ValidationError ''required'' (JStr ''This value is required.''))), [])"
    using e by (simp add: validateConstraint_def required_constraint_def validate_def Validator_def
        standard_validate_def reject_def js_or_def replace_ps_def)
  with ws e w show ?thesis by simp
qed

lemma email_check_fails:
  "validateConstraint emailAvailable_constraint (JStr ''a@b.com'') JUndef
   = (Returned (Rejected (ValidationError ''emailAvailable'' (JStr ''Not Found''))), [])"
  by (simp add: validateConstraint_def emailAvailable_constraint_def validate_def as_validator_def
      remote_validateFn_def remote_request_def resolvedUrl_def RemoteValidator_def lookup_spec_def
      emailAvailable_spec_def no_transport_def js_or_def reject_def replace_ps_def Let_def spread_def)

lemma stale_email_state:
  "stale_email
   = (new_field ''email'' ''text'' (JStr [CHR 0x20]) [emailAvailable_constraint])
       \<lparr> lastValidatedValue := JStr [CHR 0x20], lastValidationState := Some False,
         validationResult := Some (Errors [ValidationError ''emailAvailable'' (JStr ''Not Found'')]),
         isValid := False, failedOnce := True \<rparr>"
proof -
  let ?f1 = "email_field \<lparr> validationResult := Some (Errors []), lastValidatedValue := JStr ''a@b.com'' \<rparr>"
  have nt: "\<not> is_checkbox_or_radio ''text''"
    by (simp add: is_checkbox_or_radio_def to_lower_def)
  have e: "\<not> empty_js (JStr ''a@b.com'')" "empty_js (JStr [CHR 0x20])"
    using empty_js_whitespace [of "[[CHR 0x20]]"]
    by (simp_all add: empty_js_def trim_names whitespace_def)
  have bh: "before_hook example_page 0 (JStr ''a@b.com'') email_field
            = Inr (?f1, \<lparr> started = [], logged = [] \<rparr>)"
    using nt e
    by (simp add: before_hook_def cached_def areEquals_def email_field_def new_field_def Let_def
        shouldValidate_def isRequired_def emailAvailable_constraint_def)
  have run: "run_items True (buildValidationsFor ?f1 (JStr ''a@b.com'')) \<lparr> started = [], logged = [] \<rparr>
             = (Returned (Rejected (Errors [ValidationError ''emailAvailable'' (JStr ''Not Found'')])),
                \<lparr> started = [''emailAvailable''], logged = [] \<rparr>)"
    by (simp add: run_items_def buildValidationsFor_def sorted_constraints_def email_field_def
        new_field_def constraint_item_def email_check_fails)
      (simp add: emailAvailable_constraint_def)
  have second: "after (whenValidate True example_page (Suc 0) (?f1 \<lparr> elem_value := JStr [CHR 0x20] \<rparr>))
                = (new_field ''email'' ''text'' (JStr [CHR 0x20]) [emailAvailable_constraint])
                    \<lparr> lastValidatedValue := JStr [CHR 0x20], lastValidationState := Some True,
                      validationResult := Some (Errors []) \<rparr>"
    using nt e
    by (simp add: whenValidate_def before_hook_def cached_def areEquals_def email_field_def
        new_field_def Let_def shouldValidate_def isRequired_def emailAvailable_constraint_def
        resolveAsValid_def)
  have ev: "elem_value email_field = JStr ''a@b.com''"
    by (simp add: email_field_def new_field_def)
  show ?thesis
    unfolding stale_email_def overlapped_def ev bh
    by (simp add: run second finalizeValidationResult_def finalize_catch_def instanceof_Error_def
        handleUI_throws_def is_required_error_def handleUI_def new_field_def)
qed

text \<open>The claim as stated fails: after two overlapping evaluations the field holds a
  blank, has no \<open>required\<close> rule, and is cached as invalid for that blank; evaluated
  again, it rejects.\<close>

theorem blank_optional_field_rejects:
  "elem_value stale_email = JStr [CHR 0x20]
   \<and> empty_js (JStr [CHR 0x20])
   \<and> \<not> isRequired stale_email
   \<and> settled (whenValidate True example_page 2 stale_email) = Rejected (FieldRef ''email'')
   \<and> started (trace (whenValidate True example_page 2 stale_email)) = []"
proof -
  have e: "empty_js (JStr [CHR 0x20])"
    using empty_js_whitespace [of "[[CHR 0x20]]"] by (simp add: whitespace_def)
  have c: "cached stale_email (elem_value stale_email)"
    by (simp add: stale_email_state cached_def areEquals_def new_field_def)
  have "\<not> isRequired stale_email"
    by (simp add: stale_email_state isRequired_def new_field_def emailAvailable_constraint_def)
  with e cached_answer [OF c, of True example_page 2] show ?thesis
    by (simp add: stale_email_state new_field_def)
qed

subsection \<open>The conditional gate\<close>

lemma call_value_raises: "raises k \<Longrightarrow> \<exists>e. call_value k = (False, [ConsoleWarn e])"
  by (cases k) (simp_all add: raises_def call_value_def)

lemma condition_fails_false:
  assumes "condition_fails pg c"
  shows "\<exists>e. evaluateConditionValue pg c = (False, [ConsoleWarn e])"
proof (cases c)
  case (CondString s)
  show ?thesis
  proof (cases "isSelector s")
    case True
    with assms CondString show ?thesis
      by (simp add: condition_fails_def evaluateConditionValue_def)
  next
    case False
    with assms CondString show ?thesis
      by (auto simp: condition_fails_def evaluateConditionValue_def
          dest: call_value_raises split: option.splits)
  qed
next
  case (CondFunction k)
  with assms show ?thesis
    by (auto simp: condition_fails_def evaluateConditionValue_def dest: call_value_raises)
next
  case CondOther
  with assms show ?thesis by (simp add: condition_fails_def)
qed

lemma shouldValidate_iff:
  "fst (shouldValidate pg f)
   = ((case validateIf f of None \<Rightarrow> True | Some c \<Rightarrow> fst (evaluateConditionValue pg c))
      \<and> (case notValidateIf f of None \<Rightarrow> True | Some c \<Rightarrow> \<not> fst (evaluateConditionValue pg c)))"
  by (simp add: shouldValidate_def Let_def split: option.splits)

lemma shouldValidate_cache_update [simp]:
  "shouldValidate pg (f \<lparr> validationResult := a, lastValidatedValue := b \<rparr>) = shouldValidate pg f"
  by (simp add: shouldValidate_def)

lemma include_failure_skips:
  assumes inc: "validateIf f = Some c" and fails: "condition_fails pg c"
    and nc: "\<not> cached f (elem_value f)"
  shows "settled (whenValidate stop pg fresh f) = Fulfilled (elem_value f)
         \<and> started (trace (whenValidate stop pg fresh f)) = []
         \<and> lastValidationState (after (whenValidate stop pg fresh f)) = Some True
         \<and> (\<not> is_checkbox_or_radio (elem_type f)
              \<longrightarrow> (\<exists>e. ConsoleWarn e \<in> set (logged (trace (whenValidate stop pg fresh f)))))"
proof -
  from condition_fails_false [OF fails] obtain e
    where e: "evaluateConditionValue pg c = (False, [ConsoleWarn e])" by blast
  have sv: "fst (shouldValidate pg f) = False" "ConsoleWarn e \<in> set (snd (shouldValidate pg f))"
    by (simp_all add: shouldValidate_def inc e Let_def)
  show ?thesis
  proof (cases "is_checkbox_or_radio (elem_type f)")
    case True
    then show ?thesis
      using nc by (simp add: whenValidate_def before_hook_def resolveAsValid_def Let_def)
  next
    case False
    then show ?thesis
      using nc sv by (auto simp: whenValidate_def before_hook_def resolveAsValid_def Let_def)
  qed
qed

text \<open>
  C8, as amended. \<open>shouldValidate\<close> holds iff the include condition evaluates truthy (or
  is absent) and the exclude condition evaluates falsy (or is absent). A condition whose
  selector matches nothing or whose evaluation throws evaluates to false, with a warning
  logged and nothing thrown. When the include condition fails so and the evaluation is
  not answered from the cache, the field settles valid and starts no constraint (the
  warning is logged unless the element is a checkbox or a radio button, for which the
  conditions are not evaluated). When the cache answers, its verdict is returned, valid
  or invalid, and no constraint is started either.
\<close>

theorem conditional_gate:
  "fst (shouldValidate pg f)
     = ((case validateIf f of None \<Rightarrow> True | Some c \<Rightarrow> fst (evaluateConditionValue pg c))
        \<and> (case notValidateIf f of None \<Rightarrow> True | Some c \<Rightarrow> \<not> fst (evaluateConditionValue pg c)))
   \<and> (condition_fails pg c \<longrightarrow> (\<exists>e. evaluateConditionValue pg c = (False, [ConsoleWarn e])))
   \<and> (validateIf f = Some c \<and> condition_fails pg c \<and> \<not> cached f (elem_value f)
        \<longrightarrow> settled (whenValidate stop pg fresh f) = Fulfilled (elem_value f)
            \<and> started (trace (whenValidate stop pg fresh f)) = []
            \<and> lastValidationState (after (whenValidate stop pg fresh f)) = Some True
            \<and> (\<not> is_checkbox_or_radio (elem_type f)
                 \<longrightarrow> (\<exists>e. ConsoleWarn e \<in> set (logged (trace (whenValidate stop pg fresh f))))))
   \<and> (cached f (elem_value f)
        \<longrightarrow> settled (whenValidate stop pg fresh f)
              = (if lastValidationState f = Some True then Fulfilled (elem_value f)
                 else Rejected (FieldRef (f_id f)))
            \<and> started (trace (whenValidate stop pg fresh f)) = [])"
  using shouldValidate_iff [of pg f] condition_fails_false [of pg c]
    include_failure_skips [of f c pg stop fresh] cached_answer [of f stop pg fresh]
  by simp


text \<open>The first evaluation of the required, empty field while \<open>#isCompany\<close> is checked:
  it fails and the verdict is cached.\<close>

lemma isSelector_isCompany: "isSelector ''#isCompany''"
  by (simp add: isSelector_def is_word_def is_alpha_def)

lemma vat_field_first:
  "settled (whenValidate True example_page 0 vat_field) = Rejected (FieldRef ''vat'')
   \<and> started (trace (whenValidate True example_page 0 vat_field)) = [''required'']
   \<and> lastValidationState (after (whenValidate True example_page 0 vat_field)) = Some False
   \<and> lastValidatedValue (after (whenValidate True example_page 0 vat_field)) = JStr []
   \<and> elem_value (after (whenValidate True example_page 0 vat_field)) = JStr []
   \<and> f_id (after (whenValidate True example_page 0 vat_field)) = ''vat''"
proof -
  have sv: "shouldValidate example_page vat_field = (True, [])"
    by (simp add: shouldValidate_def vat_field_def new_field_def evaluateConditionValue_def
        isSelector_isCompany example_page_def)
  have e: "empty_js (JStr [])"
    by (simp add: empty_js_def trim_names)
  have rq: "isRequired vat_field"
    by (simp add: isRequired_def vat_field_def new_field_def required_constraint_def)
  have nt: "\<not> is_checkbox_or_radio ''text''"
    by (simp add: is_checkbox_or_radio_def to_lower_def)
  have bh: "before_hook example_page 0 (JStr []) vat_field
            = Inr (vat_field \<lparr> validationResult := Some (Errors []), lastValidatedValue := JStr [] \<rparr>,
                   \<lparr> started = [], logged = [] \<rparr>)"
    using sv e rq nt
    by (simp add: before_hook_def cached_def areEquals_def vat_field_def new_field_def Let_def
        shouldValidate_def isRequired_def)
  have vc: "validateConstraint required_constraint (JStr []) JUndef
            = (Returned (Rejected (ValidationError ''required'' (JStr ''This value is required.''))), [])"
    using e by (simp add: validateConstraint_def required_constraint_def validate_def Validator_def
        standard_validate_def reject_def js_or_def replace_ps_def)
  have run: "run_items True
               (buildValidationsFor
                  (vat_field \<lparr> validationResult := Some (Errors []), lastValidatedValue := JStr [] \<rparr>)
                  (JStr []))
               \<lparr> started = [], logged = [] \<rparr>
             = (Returned (Rejected (Errors
                   [ValidationError ''required'' (JStr ''This value is required.'')])),
                \<lparr> started = [''required''], logged = [] \<rparr>)"
    using vc
    by (simp add: run_items_def buildValidationsFor_def sorted_constraints_def vat_field_def
        new_field_def constraint_item_def required_constraint_def)
  show ?thesis
    using bh run
    by (simp add: whenValidate_def validate_own_def finalizeValidationResult_def finalize_catch_def handleUI_throws_def instanceof_Error_def
        handleUI_def vat_field_def new_field_def)
qed

text \<open>The claim as stated fails: the same field evaluated again, unchanged, on a page
  where its include condition matches nothing, is answered from the cache and settles
  invalid.\<close>

theorem include_failure_cached_invalid:
  "condition_fails empty_page (CondString ''#isCompany'')
   \<and> settled (whenValidate True empty_page 1 (after (whenValidate True example_page 0 vat_field)))
       = Rejected (FieldRef ''vat'')"
proof -
  let ?f1 = "after (whenValidate True example_page 0 vat_field)"
  have "cached ?f1 (elem_value ?f1)"
    using vat_field_first by (simp add: cached_def areEquals_def)
  from cached_answer [OF this, of True empty_page 1] vat_field_first
  have "settled (whenValidate True empty_page 1 ?f1) = Rejected (FieldRef ''vat'')"
    by simp
  moreover have "condition_fails empty_page (CondString ''#isCompany'')"
    by (simp add: condition_fails_def isSelector_isCompany empty_page_def)
  ultimately show ?thesis by simp
qed

theorem conditional_gate_witness:
  "validateIf vat_field = Some (CondString ''#isCompany'')
   \<and> condition_fails empty_page (CondString ''#isCompany'')
   \<and> \<not> cached vat_field (elem_value vat_field)
   \<and> fst (shouldValidate empty_page vat_field) = False
   \<and> settled (whenValidate True empty_page 0 vat_field) = Fulfilled (JStr [])
   \<and> started (trace (whenValidate True empty_page 0 vat_field)) = []"
proof -
  have a: "validateIf vat_field = Some (CondString ''#isCompany'')"
    by (simp add: vat_field_def)
  have b: "condition_fails empty_page (CondString ''#isCompany'')"
    by (simp add: condition_fails_def isSelector_isCompany empty_page_def)
  have c: "\<not> cached vat_field (elem_value vat_field)"
    by (simp add: cached_def vat_field_def new_field_def)
  have d: "elem_value vat_field = JStr []" "notValidateIf vat_field = None"
    by (simp_all add: vat_field_def new_field_def)
  from conditional_gate [of empty_page vat_field "CondString ''#isCompany''" True 0] a b c d
  show ?thesis by auto
qed

subsection \<open>The gate of a group\<close>

lemma before_hook_reaches:
  "(\<exists>p. before_hook pg fresh val f = Inr p) = reaches_hook pg val f"
  by (auto simp: before_hook_def reaches_hook_def Let_def isRequired_def)

lemma preValidate_known_invalid:
  assumes "fs \<noteq> []" and "list_ex (\<lambda>c. lastValidationState c = Some False) fs"
  shows "preValidate stop pg fresh gid fs = (Some (FieldRef gid), fs, no_trace)"
  using assms by (simp add: preValidate_def)

text \<open>
  C2, as amended. When a group with children evaluates while a child is known invalid,
  none of the group's own constraints is started and no child is evaluated again. The
  evaluation rejects with the group itself whenever it reaches the pre-validation hook.
  When it does not, the steps before the hook settle it: the cached verdict for an
  unchanged value, and valid for each of the skips (condition false, no constraint, not
  visible, empty value without \<open>required\<close>).
\<close>

theorem group_gate:
  assumes "children g \<noteq> []"
    and "list_ex (\<lambda>c. lastValidationState c = Some False) (children g)"
  shows "started (trace (fst (whenValidateGroup stop pg fresh g))) = []
         \<and> children (after (fst (whenValidateGroup stop pg fresh g))) = children g
         \<and> snd (whenValidateGroup stop pg fresh g) = no_trace
         \<and> (reaches_hook pg (getValue fresh g) (g_field g)
              \<longrightarrow> settled (fst (whenValidateGroup stop pg fresh g))
                    = Rejected (FieldRef (f_id (g_field g))))
         \<and> (\<not> reaches_hook pg (getValue fresh g) (g_field g)
              \<longrightarrow> settled (fst (whenValidateGroup stop pg fresh g))
                    = (if cached (g_field g) (getValue fresh g)
                          \<and> lastValidationState (g_field g) \<noteq> Some True
                       then Rejected (FieldRef (f_id (g_field g)))
                       else Fulfilled (getValue fresh g)))"
proof (cases "before_hook pg (Suc fresh) (getValue fresh g) (g_field g)")
  case (Inl out)
  have nr: "\<not> reaches_hook pg (getValue fresh g) (g_field g)"
    using Inl before_hook_reaches [of pg "Suc fresh" "getValue fresh g" "g_field g"] by auto
  have w: "whenValidateGroup stop pg fresh g
           = (\<lparr> settled = settled out, after = g \<lparr> g_field := after out \<rparr>, trace = trace out \<rparr>,
              no_trace)"
    by (simp add: whenValidateGroup_def Inl)
  have "settled out = (if cached (g_field g) (getValue fresh g)
                          \<and> lastValidationState (g_field g) \<noteq> Some True
                       then Rejected (FieldRef (f_id (g_field g)))
                       else Fulfilled (getValue fresh g))"
    using before_hook_Inl(3,4) [OF Inl] by (cases "cached (g_field g) (getValue fresh g)") auto
  then show ?thesis
    using nr before_hook_Inl(1) [OF Inl] by (simp add: w)
next
  case (Inr p)
  obtain f1 w where p: "p = (f1, w)" by (cases p)
  have r: "reaches_hook pg (getValue fresh g) (g_field g)"
    using Inr before_hook_reaches [of pg "Suc fresh" "getValue fresh g" "g_field g"] by auto
  have id: "f_id f1 = f_id (g_field g)" and st: "started w = []"
    using before_hook_Inr(1,2) [OF Inr [unfolded p]] by simp_all
  have "whenValidateGroup stop pg fresh g
        = (\<lparr> settled = Rejected (FieldRef (f_id f1)),
             after = g \<lparr> g_field := f1, children := children g \<rparr>, trace = w \<rparr>, no_trace)"
    by (simp add: whenValidateGroup_def Inr p preValidate_known_invalid [OF assms])
  then show ?thesis
    using r id st by simp
qed


lemma failed_vat_state:
  "lastValidationState failed_vat = Some False" "elem_value failed_vat = JStr []"
  using vat_field_first by (simp_all add: failed_vat_def)

lemma not_checkbox_or_radio_Nil: "\<not> is_checkbox_or_radio []"
  by (simp add: is_checkbox_or_radio_def)

lemma blocked_group_gate:
  "\<not> cached (g_field (blocked_group cs)) v"
  "fst (shouldValidate pg (g_field (blocked_group cs)))"
  "\<not> isRequired (g_field (blocked_group cs))"
  "constraints (g_field (blocked_group cs)) \<noteq> []"
  "elem_visible (g_field (blocked_group cs))"
  "elem_type (g_field (blocked_group cs)) = []"
  "f_id (g_field (blocked_group cs)) = ''contact''"
  by (simp_all add: blocked_group_def new_field_def cached_def shouldValidate_def isRequired_def
      startsWith_constraint_def)

text \<open>The claim as stated fails: a group whose only child is empty, required and known
  invalid has the value \<open>['']\<close>, which is empty; without a \<open>required\<close> rule of its own
  the group settles valid.\<close>

theorem invalid_child_group_settles_valid:
  "list_ex (\<lambda>c. lastValidationState c = Some False) (children (blocked_group [failed_vat]))
   \<and> settled (fst (whenValidateGroup True example_page 10 (blocked_group [failed_vat])))
       = Fulfilled (JArr 10 [JStr []])"
proof -
  have v: "getValue 10 (blocked_group [failed_vat]) = JArr 10 [JStr []]"
    by (simp add: getValue_def blocked_group_def failed_vat_state)
  have e: "empty_js (JArr 10 [JStr []])"
    by (simp add: empty_js_def trim_names)
  have "before_hook example_page (Suc 10) (JArr 10 [JStr []]) (g_field (blocked_group [failed_vat]))
        = Inl (resolveAsValid (JArr 10 [JStr []])
                 ((g_field (blocked_group [failed_vat]))
                    \<lparr> validationResult := Some (Errors []),
                      lastValidatedValue := cloneValue (Suc 10) (JArr 10 [JStr []]) \<rparr>)
                 \<lparr> started = [], logged = snd (shouldValidate example_page (g_field (blocked_group [failed_vat]))) \<rparr>)"
    using e blocked_group_gate [where cs = "[failed_vat]"]
    by (simp add: before_hook_def Let_def not_checkbox_or_radio_Nil isRequired_def)
  then have "settled (fst (whenValidateGroup True example_page 10 (blocked_group [failed_vat])))
             = Fulfilled (JArr 10 [JStr []])"
    by (simp add: whenValidateGroup_def v resolveAsValid_def)
  moreover have "list_ex (\<lambda>c. lastValidationState c = Some False) (children (blocked_group [failed_vat]))"
    by (simp add: blocked_group_def failed_vat_state)
  ultimately show ?thesis by simp
qed

theorem group_gate_witness:
  "children (blocked_group [failed_vat, new_field ''city'' ''text'' (JStr ''Bern'') []]) \<noteq> []
   \<and> list_ex (\<lambda>c. lastValidationState c = Some False)
        (children (blocked_group [failed_vat, new_field ''city'' ''text'' (JStr ''Bern'') []]))
   \<and> settled (fst (whenValidateGroup True example_page 10
                     (blocked_group [failed_vat, new_field ''city'' ''text'' (JStr ''Bern'') []])))
       = Rejected (FieldRef ''contact'')
   \<and> started (trace (fst (whenValidateGroup True example_page 10
                     (blocked_group [failed_vat, new_field ''city'' ''text'' (JStr ''Bern'') []]))))
       = []"
proof -
  let ?g = "blocked_group [failed_vat, new_field ''city'' ''text'' (JStr ''Bern'') []]"
  have a: "children ?g \<noteq> []"
    by (simp add: blocked_group_def)
  have b: "list_ex (\<lambda>c. lastValidationState c = Some False) (children ?g)"
    by (simp add: blocked_group_def failed_vat_state)
  have v: "getValue 10 ?g = JArr 10 [JStr [], JStr ''Bern'']"
    by (simp add: getValue_def blocked_group_def failed_vat_state new_field_def)
  have e: "\<not> empty_js (JArr 10 [JStr [], JStr ''Bern''])"
    by (simp add: empty_js_def trim_names)
  have r: "reaches_hook example_page (getValue 10 ?g) (g_field ?g)"
    using e blocked_group_gate by (simp add: reaches_hook_def v not_checkbox_or_radio_Nil)
  from group_gate [OF a b, of True example_page 10] r a b show ?thesis
    by (simp add: blocked_group_gate)
qed

subsection \<open>The order of evaluation\<close>

lemma sorted_constraints_sorted:
  "sorted_wrt (\<lambda>a b. c_priority b \<le> c_priority a) (sorted_constraints f)"
proof -
  have "sorted (map (\<lambda>c. - c_priority c) (sort_key (\<lambda>c. - c_priority c) (constraints f)))"
    by (rule sorted_sort_key)
  then show ?thesis
    by (simp add: sorted_constraints_def sorted_map)
qed

lemma sorted_constraints_earlier:
  assumes "i < length (sorted_constraints f)" and "j < length (sorted_constraints f)"
    and "c_priority (sorted_constraints f ! j) < c_priority (sorted_constraints f ! i)"
  shows "i < j"
proof (rule ccontr)
  assume "\<not> i < j"
  with assms(3) have "j < i" by (cases "i = j") auto
  with sorted_constraints_sorted [of f] assms(1)
  have "c_priority (sorted_constraints f ! i) \<le> c_priority (sorted_constraints f ! j)"
    by (simp add: sorted_wrt_iff_nth_less)
  with assms(3) show False by simp
qed

lemma standard_priority_range:
  assumes "map_of standardValidators n = Some p"
  shows "30 \<le> p \<and> p \<le> 100 \<and> (p = 100) = (n = ''required'') \<and> (n \<noteq> ''required'' \<longrightarrow> p \<le> 70)"
  using assms by (auto simp: standardValidators_def split: if_splits)

lemma Constraint_priority:
  assumes "Constraint reg n reqs = Returned c" and "customValidators reg n = None"
  shows "(n = ''required'' \<longrightarrow> c_priority c = 100)
         \<and> (n \<noteq> ''required'' \<longrightarrow> c_priority c \<le> 70)
         \<and> (c_validator c \<noteq> None \<longrightarrow> 30 \<le> c_priority c)"
proof (cases "n \<in> set Object_prototype")
  case True
  with assms have c: "c_priority c = 0" "c_validator c = None"
    by (auto simp: Constraint_def)
  have "n \<noteq> ''required''"
    using True by (auto simp: Object_prototype_def)
  with c show ?thesis by simp
next
  case inherited: False
  show ?thesis
  proof (cases "isStandardConstraint n reqs")
    case True
    with inherited obtain p where p: "map_of standardValidators n = Some p"
      by (auto simp: isStandardConstraint_def split: if_splits)
    from assms True inherited have "c_priority c = p"
      by (auto simp: Constraint_def StandardValidator_def Validator_def p split: if_splits)
    with standard_priority_range [OF p] show ?thesis by auto
  next
    case False
    with assms inherited have c: "c_priority c = 0" "c_validator c = None"
      by (auto simp: Constraint_def)
    have "n \<noteq> ''required''"
      using False by (auto simp: isStandardConstraint_def standardValidators_def)
    with c show ?thesis by simp
  qed
qed

text \<open>
  C4, as amended. The constraints are evaluated in the order of a stable sort by
  descending priority: the list is a permutation of the field's constraints, sorted by
  descending priority, constraints of equal priority keep the order in which the
  field's constraint table lists them, and a constraint of strictly higher priority
  always comes earlier. The built-in rule
  \<open>required\<close> has priority 100 and every other built-in rule a priority from 30 to 70
  (an unknown rule has 0), so \<open>required\<close> comes before every rule of priority below 100.
  A remote validator registered without a priority has 10, below every built-in rule,
  and a plain custom validator registered without a priority has 0.
\<close>

theorem constraint_order:
  "sorted_wrt (\<lambda>a b. c_priority b \<le> c_priority a) (sorted_constraints f)
   \<and> mset (sorted_constraints f) = mset (constraints f)
   \<and> filter (\<lambda>c. c_priority c = p) (sorted_constraints f) = filter (\<lambda>c. c_priority c = p) (constraints f)
   \<and> (i < length (sorted_constraints f) \<and> j < length (sorted_constraints f)
        \<and> c_priority (sorted_constraints f ! j) < c_priority (sorted_constraints f ! i)
        \<longrightarrow> i < j)
   \<and> (Constraint reg n reqs = Returned c \<and> customValidators reg n = None
        \<longrightarrow> (n = ''required'' \<longrightarrow> c_priority c = 100)
            \<and> (n \<noteq> ''required'' \<longrightarrow> c_priority c \<le> 70)
            \<and> (c_validator c \<noteq> None \<longrightarrow> 30 \<le> c_priority c))
   \<and> (s_priority spec = None
        \<longrightarrow> r_priority (RemoteValidator msgs n spec) = 10
            \<and> priority (Validator msgs n fn msg grp (s_priority spec)) = 0)"
proof -
  have stable: "filter (\<lambda>c. c_priority c = p) (sorted_constraints f)
                = filter (\<lambda>c. c_priority c = p) (constraints f)"
    using sort_key_stable [of "\<lambda>c. - c_priority c" "- p" "constraints f"]
    by (simp add: sorted_constraints_def)
  have perm: "mset (sorted_constraints f) = mset (constraints f)"
    by (simp add: sorted_constraints_def)
  have dflt: "s_priority spec = None
              \<longrightarrow> r_priority (RemoteValidator msgs n spec) = 10
                  \<and> priority (Validator msgs n fn msg grp (s_priority spec)) = 0"
    by (simp add: RemoteValidator_def Validator_def)
  show ?thesis
    using sorted_constraints_sorted [of f] perm stable sorted_constraints_earlier [of i f j]
      Constraint_priority [of reg n reqs c] dflt
    by blast
qed



lemma email_registry_built:
  "Constraint email_registry ''nospaces'' (JStr []) = Returned nospaces_constraint"
  "Constraint email_registry ''emailAvailable'' (JStr []) = Returned emailAvailable_constraint"
  by (simp_all add: Constraint_def email_registry_def example_registry_def addValidator_def trim_names
      not_in_prototype nospaces_spec_def lookup_spec_def emailAvailable_spec_def nospaces_constraint_def
      emailAvailable_constraint_def as_validator_def RemoteValidator_def Validator_def)

text \<open>The claim as stated fails: of a custom and a remote validator, both registered
  without a priority, the remote one is evaluated first, not last.\<close>

theorem remote_runs_before_custom:
  "Constraint email_registry ''nospaces'' (JStr []) = Returned nospaces_constraint
   \<and> Constraint email_registry ''emailAvailable'' (JStr []) = Returned emailAvailable_constraint
   \<and> map c_name (sorted_constraints
          (new_field ''email'' ''text'' (JStr ''a@b.com'')
             [nospaces_constraint, emailAvailable_constraint]))
       = [''emailAvailable'', ''nospaces'']"
  using email_registry_built
  by (simp add: sorted_constraints_def new_field_def nospaces_constraint_def
      emailAvailable_constraint_def)

theorem constraint_order_witness:
  "map c_name (sorted_constraints
      (new_field ''email'' ''text'' (JStr ''a@b.com'')
         [emailAvailable_constraint, startsWith_constraint, required_constraint]))
     = [''required'', ''startsWith'', ''emailAvailable'']
   \<and> c_priority (sorted_constraints
        (new_field ''email'' ''text'' (JStr ''a@b.com'')
           [emailAvailable_constraint, startsWith_constraint, required_constraint]) ! 2)
       < c_priority (sorted_constraints
        (new_field ''email'' ''text'' (JStr ''a@b.com'')
           [emailAvailable_constraint, startsWith_constraint, required_constraint]) ! 0)
   \<and> (0 :: nat) < 2
   \<and> Constraint example_registry ''required'' (JStr ''true'') = Returned required_constraint
   \<and> c_priority required_constraint = 100"
proof -
  let ?f = "new_field ''email'' ''text'' (JStr ''a@b.com'')
              [emailAvailable_constraint, startsWith_constraint, required_constraint]"
  have s: "sorted_constraints ?f = [required_constraint, startsWith_constraint, emailAvailable_constraint]"
    by (simp add: sorted_constraints_def new_field_def emailAvailable_constraint_def
        startsWith_constraint_def required_constraint_def)
  have nc: "customValidators example_registry ''required'' = None"
    by (simp add: example_registry_def addValidator_def trim_names)
  have lt: "c_priority (sorted_constraints ?f ! 2) < c_priority (sorted_constraints ?f ! 0)"
    unfolding s by (simp add: emailAvailable_constraint_def required_constraint_def)
  from constraint_order [of ?f 100 0 2 example_registry "''required''" "JStr ''true''"
      required_constraint lookup_spec MessagesDefaults None None False]
    required_constraint_built nc lt
  have "(0 :: nat) < 2 \<and> c_priority required_constraint = 100"
    by simp
  moreover have "map c_name (sorted_constraints ?f) = [''required'', ''startsWith'', ''emailAvailable'']"
    unfolding s
    by (simp add: emailAvailable_constraint_def startsWith_constraint_def required_constraint_def)
  ultimately show ?thesis
    using lt required_constraint_built by simp
qed

subsection \<open>Exceptions and failed transports\<close>








lemma broken_constraint_throws:
  "validateConstraint broken_constraint val custom
   = (Thrown (JError ''x is not defined''), [ConsoleError (JError ''x is not defined'')])"
  by (simp add: validateConstraint_def broken_constraint_def validate_def Validator_def throwing_fn_def)

lemma startsWith_constraint_returns:
  "\<exists>p. validateConstraint startsWith_constraint val custom = (Returned p, [])"
  by (auto simp: validateConstraint_def startsWith_constraint_def validate_def startsWith_validator_def
      Validator_def startsWith_spec_def startsWith_fn_def
      split: list.splits jsval.splits)


text \<open>Under the sequential strategy the same exception ends in the list of errors: the
  field settles invalid and rejects with itself.\<close>

lemma sequential_exception_settles_invalid:
  "settled (whenValidate True example_page 0
      (new_field ''code'' ''text'' (JStr ''ABC'') [broken_constraint]))
   = Rejected (FieldRef ''code'')
   \<and> validationResult (after (whenValidate True example_page 0
        (new_field ''code'' ''text'' (JStr ''ABC'') [broken_constraint])))
     = Some (Errors [Raw (JError ''x is not defined'')])"
proof -
  let ?f = "new_field ''code'' ''text'' (JStr ''ABC'') [broken_constraint]"
  let ?f1 = "?f \<lparr> validationResult := Some (Errors []), lastValidatedValue := JStr ''ABC'' \<rparr>"
  have r: "reaches_hook example_page (JStr ''ABC'') ?f"
    by (simp add: reaches_hook_def new_field_def cached_def areEquals_def is_checkbox_or_radio_def
        to_lower_def shouldValidate_def empty_js_def trim_names)
  then obtain f1 w where bh: "before_hook example_page 0 (JStr ''ABC'') ?f = Inr (f1, w)"
    using before_hook_reaches [of example_page 0 "JStr ''ABC''" ?f] by auto
  from before_hook_Inr(1,2,3) [OF bh]
  have f1: "f1 = ?f1" and w: "started w = []" by simp_all
  have run: "run_items True (buildValidationsFor f1 (JStr ''ABC'')) w
             = (Returned (Rejected (Errors [Raw (JError ''x is not defined'')])),
                w \<lparr> started := started w @ [''broken''],
                    logged := logged w @ [ConsoleError (JError ''x is not defined'')] \<rparr>)"
    by (simp add: run_items_def buildValidationsFor_def sorted_constraints_def f1 new_field_def
        constraint_item_def broken_constraint_throws)
      (simp add: broken_constraint_def)
  have ev: "elem_value ?f = JStr ''ABC''"
    by (simp add: new_field_def)
  have "whenValidate True example_page 0 ?f
        = finalize_catch (Errors [Raw (JError ''x is not defined'')]) f1
            (w \<lparr> started := started w @ [''broken''],
                 logged := logged w @ [ConsoleError (JError ''x is not defined'')] \<rparr>)"
    by (simp add: whenValidate_def ev bh validate_own_def finalizeValidationResult_def run)
  then show ?thesis
    by (simp add: finalize_catch_def handleUI_throws_def instanceof_Error_def handleUI_def f1 new_field_def)
qed

subsection \<open>The two strategies give the same verdict\<close>

lemma runSequential_verdict:
  "is_valid (fst (runSequential items acc s))
   = (case start_all items s of (Thrown e, s') \<Rightarrow> False | (Returned ps, s') \<Rightarrow> rejections ps = [])"
proof (induction items arbitrary: acc s)
  case Nil
  then show ?case by simp
next
  case (Cons it items)
  obtain r s1 where it: "it s = (r, s1)" by (cases "it s")
  show ?case
  proof (cases r)
    case (Thrown e)
    then show ?thesis by (simp add: it)
  next
    case (Returned p)
    show ?thesis
    proof (cases p)
      case (Fulfilled v)
      with Returned it Cons.IH [of "acc @ [v]" s1] show ?thesis
        by (simp split: prod.splits result.splits)
    next
      case (Rejected e)
      with Returned it show ?thesis
        by (simp split: prod.splits result.splits)
    qed
  qed
qed

lemma runSequential_rejects_list:
  "fst (runSequential items acc s) = Rejected r \<Longrightarrow> \<exists>e. r = Errors [e]"
proof (induction items arbitrary: acc s)
  case Nil
  then show ?case by simp
next
  case (Cons it items)
  obtain x s1 where it: "it s = (x, s1)" by (cases "it s")
  from Cons.prems it Cons.IH show ?case
    by (auto split: result.splits settle.splits)
qed

lemma passes_strategy: "passes True items s = passes False items s"
proof -
  obtain r s' where rs: "runSequential items [] s = (r, s')" by (cases "runSequential items [] s")
  have "passes True items s = is_valid (fst (runSequential items [] s))"
    by (cases r) (simp_all add: passes_def run_items_def rs)
  also have "\<dots> = (case start_all items s of (Thrown e, s') \<Rightarrow> False
                    | (Returned ps, s') \<Rightarrow> rejections ps = [])"
    by (rule runSequential_verdict)
  also have "\<dots> = passes False items s"
    by (simp add: passes_def run_items_def Utils_all_def split: prod.splits result.splits)
  finally show ?thesis .
qed

lemma run_items_rejects_list:
  assumes "run_items stop items s = (Returned (Rejected r), s')"
  shows "\<not> instanceof_Error r"
proof (cases stop)
  case True
  with assms have "fst (runSequential items [] s) = Rejected r"
    by (auto simp: run_items_def split: prod.splits)
  from runSequential_rejects_list [OF this] show ?thesis
    by (auto simp: instanceof_Error_def)
next
  case False
  with assms show ?thesis
    by (auto simp: run_items_def Utils_all_def instanceof_Error_def
        split: prod.splits result.splits if_splits)
qed

lemma validate_own_verdict:
  "is_valid (settled (validate_own stop val f w)) = passes stop (buildValidationsFor f val) w"
proof -
  obtain r w' where r: "run_items stop (buildValidationsFor f val) w = (r, w')"
    by (cases "run_items stop (buildValidationsFor f val) w")
  show ?thesis
  proof (cases r)
    case (Thrown e)
    with r show ?thesis by (simp add: validate_own_def finalizeValidationResult_def passes_def)
  next
    case (Returned p)
    show ?thesis
    proof (cases p)
      case (Fulfilled vs)
      with Returned r show ?thesis by (simp add: validate_own_def finalizeValidationResult_def passes_def finalize_then_def)
    next
      case (Rejected e)
      with Returned r run_items_rejects_list [of stop "buildValidationsFor f val" w e w']
      show ?thesis
        by (simp add: validate_own_def finalizeValidationResult_def passes_def finalize_catch_def
            split: option.splits)
    qed
  qed
qed

lemma whenValidate_verdict:
  "is_valid (settled (whenValidate True pg fresh f)) = is_valid (settled (whenValidate False pg fresh f))"
  by (simp add: whenValidate_def validate_own_verdict passes_strategy split: sum.splits)


lemma constraint_item_started:
  "started (snd (constraint_item f val c w)) = started w @ [c_name c]"
  by (simp add: constraint_item_def split: prod.splits)

lemma start_all_started_mono:
  "prefix (started w) (started (snd (start_all (map (constraint_item f val) cs) w)))"
proof (induction cs arbitrary: w)
  case Nil
  then show ?case by simp
next
  case (Cons c cs)
  obtain r w1 where c: "constraint_item f val c w = (r, w1)" by (cases "constraint_item f val c w")
  have w1: "started w1 = started w @ [c_name c]"
    using constraint_item_started [of f val c w] by (simp add: c)
  have p1: "prefix (started w) (started w1)" by (simp add: w1)
  have "prefix (started w) (started (snd (start_all (map (constraint_item f val) cs) w1)))"
    using p1 Cons.IH [of w1] by (rule prefix_order.trans)
  then show ?case
    using p1 by (cases r) (auto simp: c split: prod.splits result.splits)
qed

lemma sequential_started_prefix:
  "prefix (started (snd (runSequential (map (constraint_item f val) cs) acc w)))
          (started (snd (start_all (map (constraint_item f val) cs) w)))"
proof (induction cs arbitrary: acc w)
  case Nil
  then show ?case by simp
next
  case (Cons c cs)
  obtain r w1 where c: "constraint_item f val c w = (r, w1)" by (cases "constraint_item f val c w")
  show ?case
  proof (cases r)
    case (Thrown e)
    then show ?thesis by (simp add: c)
  next
    case (Returned p)
    show ?thesis
    proof (cases p)
      case (Fulfilled v)
      with Returned c Cons.IH [of "acc @ [v]" w1] show ?thesis
        by (auto split: prod.splits result.splits)
    next
      case (Rejected e)
      with Returned c start_all_started_mono [of w1 f val cs] show ?thesis
        by (auto split: prod.splits result.splits)
    qed
  qed
qed

lemma validate_own_started:
  "started (trace (validate_own stop val f w)) = started (snd (run_items stop (buildValidationsFor f val) w))"
  by (simp add: validate_own_def finalizeValidationResult_def finalize_then_def finalize_catch_def
      split: prod.splits result.splits settle.splits option.splits)

lemma whenValidate_started_prefix:
  "prefix (started (trace (whenValidate True pg fresh f))) (started (trace (whenValidate False pg fresh f)))"
proof (cases "before_hook pg fresh (elem_value f) f")
  case (Inl out)
  then show ?thesis by (simp add: whenValidate_def)
next
  case (Inr p)
  obtain f1 w where p: "p = (f1, w)" by (cases p)
  have "prefix (started (snd (run_items True (buildValidationsFor f1 (elem_value f)) w)))
               (started (snd (run_items False (buildValidationsFor f1 (elem_value f)) w)))"
    using sequential_started_prefix [of f1 "elem_value f" "sorted_constraints f1" "[]" w]
    by (auto simp: run_items_def buildValidationsFor_def split: prod.splits result.splits)
  then show ?thesis
    by (simp add: whenValidate_def Inr p validate_own_started)
qed

lemma runSequential_all_fulfilled:
  assumes "start_all items s = (Returned ps, s')" and "rejections ps = []"
  shows "runSequential items acc s = (Fulfilled (acc @ fulfilments ps), s')"
  using assms
proof (induction items arbitrary: acc s ps)
  case Nil
  then show ?case by auto
next
  case (Cons it items)
  obtain r s1 where it: "it s = (r, s1)" by (cases "it s")
  from Cons.prems it obtain p qs where r: "r = Returned p" and ps: "ps = p # qs"
    and rest: "start_all items s1 = (Returned qs, s')"
    by (auto split: result.splits prod.splits)
  from Cons.prems(2) ps obtain v where p: "p = Fulfilled v" and qs: "rejections qs = []"
    by (cases p) auto
  from Cons.IH [OF rest qs, of "acc @ [v]"] show ?case
    by (simp add: it r p ps)
qed

lemma whenValidate_valid_same:
  assumes "is_valid (settled (whenValidate False pg fresh f))"
  shows "whenValidate True pg fresh f = whenValidate False pg fresh f"
proof (cases "before_hook pg fresh (elem_value f) f")
  case (Inl out)
  then show ?thesis by (simp add: whenValidate_def)
next
  case (Inr p)
  obtain f1 w where p: "p = (f1, w)" by (cases p)
  let ?items = "buildValidationsFor f1 (elem_value f)"
  from assms have "passes False ?items w"
    by (simp add: whenValidate_def Inr p validate_own_verdict)
  then obtain ps w' where sa: "start_all ?items w = (Returned ps, w')" and rj: "rejections ps = []"
    by (auto simp: passes_def run_items_def Utils_all_def split: prod.splits result.splits if_splits)
  have "run_items True ?items w = (Returned (Fulfilled (fulfilments ps)), w')"
    using runSequential_all_fulfilled [OF sa rj, of "[]"] by (simp add: run_items_def)
  moreover have "run_items False ?items w = (Returned (Fulfilled (fulfilments ps)), w')"
    using sa rj by (simp add: run_items_def Utils_all_def)
  ultimately show ?thesis
    by (simp add: whenValidate_def Inr p validate_own_def finalizeValidationResult_def)
qed


lemma passes_start_all:
  "passes stop items s
   = (case start_all items s of (Thrown e, s') \<Rightarrow> False | (Returned ps, s') \<Rightarrow> rejections ps = [])"
proof -
  have "passes False items s
        = (case start_all items s of (Thrown e, s') \<Rightarrow> False | (Returned ps, s') \<Rightarrow> rejections ps = [])"
    by (simp add: passes_def run_items_def Utils_all_def split: prod.splits result.splits)
  then show ?thesis
    using passes_strategy [of items s] by (cases stop) simp_all
qed

lemma rejections_Cons: "(rejections (p # ps) = []) = (is_valid p \<and> rejections ps = [])"
  by (cases p) simp_all

lemma children_start_all:
  assumes "distinct is" and "\<forall>i \<in> set is. i < length fs"
  shows "\<exists>ps fs' w'. start_all (map (child_item stop pg fresh) is) (fs, w) = (Returned ps, fs', w')
           \<and> (rejections ps = [])
               = (\<forall>i \<in> set is. is_valid (settled (whenValidate stop pg (fresh + i) (fs ! i))))"
  using assms
proof (induction "is" arbitrary: fs w)
  case Nil
  then show ?case by simp
next
  case (Cons a rest)
  let ?out = "whenValidate stop pg (fresh + a) (fs ! a)"
  let ?fs1 = "fs[a := after ?out]"
  let ?w1 = "\<lparr> started = started w @ map (\<lambda>n. f_id (fs ! a) @ ''.'' @ n) (started (trace ?out)),
               logged = logged w @ logged (trace ?out) \<rparr>"
  have ci: "child_item stop pg fresh a (fs, w) = (Returned (settled ?out), ?fs1, ?w1)"
    by (simp add: child_item_def Let_def)
  have d: "distinct rest" and na: "a \<notin> set rest"
    using Cons.prems(1) by simp_all
  have len: "\<forall>i \<in> set rest. i < length ?fs1"
    using Cons.prems(2) by simp
  from Cons.IH [OF d len, of ?w1] obtain ps fs' w' where
    sa: "start_all (map (child_item stop pg fresh) rest) (?fs1, ?w1) = (Returned ps, fs', w')"
    and rj: "(rejections ps = [])
             = (\<forall>i \<in> set rest. is_valid (settled (whenValidate stop pg (fresh + i) (?fs1 ! i))))"
    by blast
  have same: "\<forall>i \<in> set rest. ?fs1 ! i = fs ! i"
  proof
    fix i
    assume "i \<in> set rest"
    with na have "a \<noteq> i" by auto
    then show "?fs1 ! i = fs ! i" by simp
  qed
  have "start_all (map (child_item stop pg fresh) (a # rest)) (fs, w)
        = (Returned (settled ?out # ps), fs', w')"
    using ci sa by simp
  moreover have "(rejections (settled ?out # ps) = [])
        = (\<forall>i \<in> set (a # rest). is_valid (settled (whenValidate stop pg (fresh + i) (fs ! i))))"
    using rj same by (simp add: rejections_Cons)
  ultimately show ?case by blast
qed

lemma children_passes:
  assumes "distinct is" and "\<forall>i \<in> set is. i < length fs"
  shows "passes stop (map (child_item stop pg fresh) is) (fs, w)
         = (\<forall>i \<in> set is. is_valid (settled (whenValidate stop pg (fresh + i) (fs ! i))))"
proof -
  from children_start_all [OF assms, of stop pg fresh w] obtain ps fs' w' where
    "start_all (map (child_item stop pg fresh) is) (fs, w) = (Returned ps, fs', w')"
    "(rejections ps = [])
     = (\<forall>i \<in> set is. is_valid (settled (whenValidate stop pg (fresh + i) (fs ! i))))"
    by blast
  then show ?thesis
    by (simp add: passes_start_all)
qed

lemma children_passes_strategy:
  assumes "distinct is" and "\<forall>i \<in> set is. i < length fs"
  shows "passes True (map (child_item True pg fresh) is) (fs, w)
         = passes False (map (child_item False pg fresh) is) (fs, w)"
  by (simp add: children_passes [OF assms] whenValidate_verdict)

lemma preValidate_resolves:
  "(fst (preValidate stop pg fresh gid fs) = None)
   = (fs = []
      \<or> (\<not> list_ex (\<lambda>f. lastValidationState f = Some False) fs
          \<and> (if filter (\<lambda>i. needsValidation (fs ! i)) [0 ..< length fs] = []
              then list_all (\<lambda>f. lastValidationState f = Some True) fs
              else passes stop
                     (map (child_item stop pg fresh) (filter (\<lambda>i. needsValidation (fs ! i)) [0 ..< length fs]))
                     (fs, no_trace))))"
  by (auto simp: preValidate_def passes_def Let_def split: prod.splits result.splits settle.splits)

lemma preValidate_verdict:
  "(fst (preValidate True pg fresh gid fs) = None) = (fst (preValidate False pg fresh gid fs) = None)"
proof -
  let ?need = "filter (\<lambda>i. needsValidation (fs ! i)) [0 ..< length fs]"
  have "distinct ?need" and "\<forall>i \<in> set ?need. i < length fs"
    by simp_all
  from children_passes_strategy [OF this, of pg fresh no_trace] show ?thesis
    by (simp only: preValidate_resolves)
qed

lemma whenValidateGroup_verdict:
  "is_valid (settled (fst (whenValidateGroup True pg fresh g)))
   = is_valid (settled (fst (whenValidateGroup False pg fresh g)))"
proof (cases "before_hook pg (Suc fresh) (getValue fresh g) (g_field g)")
  case (Inl out)
  then show ?thesis by (simp add: whenValidateGroup_def)
next
  case (Inr p)
  obtain f1 w where p: "p = (f1, w)" by (cases p)
  obtain r1 fs1 cw1 where
    p1: "preValidate True pg (Suc (Suc fresh)) (f_id f1) (children g) = (r1, fs1, cw1)"
    by (cases "preValidate True pg (Suc (Suc fresh)) (f_id f1) (children g)")
  obtain r2 fs2 cw2 where
    p2: "preValidate False pg (Suc (Suc fresh)) (f_id f1) (children g) = (r2, fs2, cw2)"
    by (cases "preValidate False pg (Suc (Suc fresh)) (f_id f1) (children g)")
  have same: "(r1 = None) = (r2 = None)"
    using preValidate_verdict [of pg "Suc (Suc fresh)" "f_id f1" "children g"] by (simp add: p1 p2)
  show ?thesis
  proof (cases r1)
    case None
    with same have "r2 = None" by simp
    with None show ?thesis
      by (simp add: whenValidateGroup_def Inr p p1 p2 Let_def validate_own_verdict passes_strategy)
  next
    case (Some e)
    with same obtain e' where "r2 = Some e'" by (cases r2) auto
    with Some show ?thesis
      by (simp add: whenValidateGroup_def Inr p p1 p2)
  qed
qed

lemma validateConstraint_rejects:
  assumes "validateConstraint c val cu = (Returned (Rejected r), l)"
  shows "\<exists>a m. r = ValidationError a m"
  using assms
  by (auto simp: validateConstraint_def validate_def reject_def
      split: option.splits if_splits fn_result.splits simp del: formatMessage.simps)

lemma start_all_no_throw:
  assumes "\<forall>c \<in> set cs. \<exists>p. fst (validateConstraint c val (customErrorMessage f)) = Returned p"
  shows "\<exists>ps w'. start_all (map (constraint_item f val) cs) w = (Returned ps, w')
                  \<and> (\<forall>r \<in> set (rejections ps). \<exists>a m. r = ValidationError a m)"
  using assms
proof (induction cs arbitrary: w)
  case Nil
  then show ?case by simp
next
  case (Cons c cs)
  obtain r l where vc: "validateConstraint c val (customErrorMessage f) = (r, l)"
    by (cases "validateConstraint c val (customErrorMessage f)")
  with Cons.prems obtain p where p: "r = Returned p" by auto
  let ?w = "w \<lparr> started := started w @ [c_name c], logged := logged w @ l \<rparr>"
  have ci: "constraint_item f val c w = (Returned p, ?w)"
    by (simp add: constraint_item_def vc p)
  from Cons.IH [of ?w] Cons.prems obtain ps w' where
    sa: "start_all (map (constraint_item f val) cs) ?w = (Returned ps, w')"
    and ve: "\<forall>r \<in> set (rejections ps). \<exists>a m. r = ValidationError a m"
    by auto
  have "\<forall>r \<in> set (rejections (p # ps)). \<exists>a m. r = ValidationError a m"
  proof (cases p)
    case (Fulfilled x)
    with ve show ?thesis by simp
  next
    case (Rejected e)
    with vc p validateConstraint_rejects [of c val "customErrorMessage f" e l] ve
    show ?thesis by auto
  qed
  moreover have "start_all (map (constraint_item f val) (c # cs)) w = (Returned (p # ps), w')"
    using ci sa by simp
  ultimately show ?case by blast
qed

lemma runSequential_first_rejection:
  assumes "start_all items s = (Returned ps, s')" and "rejections ps \<noteq> []"
  shows "fst (runSequential items acc s) = Rejected (Errors [hd (rejections ps)])"
  using assms
proof (induction items arbitrary: acc s ps)
  case Nil
  then show ?case by auto
next
  case (Cons it items)
  obtain r s1 where it: "it s = (r, s1)" by (cases "it s")
  from Cons.prems(1) it obtain p qs where r: "r = Returned p" and ps: "ps = p # qs"
    and rest: "start_all items s1 = (Returned qs, s')"
    by (auto split: result.splits prod.splits)
  show ?case
  proof (cases p)
    case (Fulfilled v)
    with Cons.prems(2) ps have "rejections qs \<noteq> []" by simp
    from Cons.IH [OF rest this, of "acc @ [v]"] show ?thesis
      by (simp add: it r Fulfilled ps)
  next
    case (Rejected e)
    then show ?thesis by (simp add: it r ps)
  qed
qed

lemma handleUI_throws_ValidationErrors:
  assumes "\<forall>r \<in> set es. \<exists>a m. r = ValidationError a m"
  shows "handleUI_throws (Errors es) = None"
proof -
  let ?s = "filter is_required_error es @ filter (\<lambda>e. \<not> is_required_error e) es"
  have "\<forall>r \<in> set ?s. \<exists>a m. r = ValidationError a m"
    using assms by auto
  then show ?thesis
    by (cases ?s) (auto simp: handleUI_throws_def split: reason.splits jsval.splits)
qed

lemma sorted_constraints_field [simp]:
  "set (sorted_constraints f) = set (constraints f)"
  by (simp add: sorted_constraints_def)

lemma whenValidate_no_throw:
  assumes "throws_none f"
  shows "settled (whenValidate True pg fresh f) = settled (whenValidate False pg fresh f)
         \<and> (after (whenValidate True pg fresh f)) \<lparr> validationResult := x \<rparr>
           = (after (whenValidate False pg fresh f)) \<lparr> validationResult := x \<rparr>
         \<and> (reaches_hook pg (elem_value f) f \<and> \<not> is_valid (settled (whenValidate False pg fresh f))
              \<longrightarrow> (\<exists>e es. validationResult (after (whenValidate True pg fresh f)) = Some (Errors [e])
                       \<and> validationResult (after (whenValidate False pg fresh f)) = Some (Errors es)
                       \<and> e \<in> set es))"
proof (cases "before_hook pg fresh (elem_value f) f")
  case (Inl out)
  then have "\<not> reaches_hook pg (elem_value f) f"
    using before_hook_reaches [of pg fresh "elem_value f" f] by auto
  with Inl show ?thesis by (simp add: whenValidate_def)
next
  case (Inr p)
  obtain f1 w where p: "p = (f1, w)" by (cases p)
  have f1: "f1 = f \<lparr> validationResult := Some (Errors []),
                     lastValidatedValue := cloneValue fresh (elem_value f) \<rparr>"
    using before_hook_Inr(1) [OF Inr [unfolded p]] .
  let ?val = "elem_value f"
  let ?items = "buildValidationsFor f1 ?val"
  have nt: "\<forall>c \<in> set (sorted_constraints f1). \<exists>p. fst (validateConstraint c ?val (customErrorMessage f1)) = Returned p"
  proof
    fix c
    assume "c \<in> set (sorted_constraints f1)"
    then have "c \<in> set (constraints f)" by (simp add: f1)
    with assms show "\<exists>p. fst (validateConstraint c ?val (customErrorMessage f1)) = Returned p"
      by (cases "fst (validateConstraint c ?val (customErrorMessage f))")
        (auto simp: throws_none_def list_all_iff f1)
  qed
  from start_all_no_throw [OF nt, of w] obtain ps w' where
    sa: "start_all ?items w = (Returned ps, w')"
    and ve: "\<forall>r \<in> set (rejections ps). \<exists>a m. r = ValidationError a m"
    by (auto simp: buildValidationsFor_def)
  have conc: "whenValidate False pg fresh f = finalizeValidationResult ?val (Returned (Utils_all ps), w') f1"
    by (simp add: whenValidate_def Inr p validate_own_def run_items_def sa)
  obtain rs ws where rs: "runSequential ?items [] w = (rs, ws)" by (cases "runSequential ?items [] w")
  have seq: "whenValidate True pg fresh f = finalizeValidationResult ?val (Returned rs, ws) f1"
    by (simp add: whenValidate_def Inr p validate_own_def run_items_def rs)
  show ?thesis
  proof (cases "rejections ps = []")
    case True
    from runSequential_all_fulfilled [OF sa True, of "[]"] rs
    have "rs = Fulfilled (fulfilments ps)" "ws = w'" by simp_all
    then show ?thesis
      using True by (simp add: conc seq Utils_all_def finalizeValidationResult_def finalize_then_def)
  next
    case False
    from runSequential_first_rejection [OF sa False, of "[]"] rs
    have r1: "rs = Rejected (Errors [hd (rejections ps)])" by simp
    let ?e = "hd (rejections ps)"
    have he: "?e \<in> set (rejections ps)" using False by simp
    with ve obtain a m where e: "?e = ValidationError a m" by blast
    have t1: "handleUI_throws (Errors [?e]) = None"
      using handleUI_throws_ValidationErrors [of "[?e]"] e by simp
    have t2: "handleUI_throws (Errors (rejections ps)) = None"
      using handleUI_throws_ValidationErrors [OF ve] .
    have s1: "whenValidate True pg fresh f
              = \<lparr> settled = Rejected (FieldRef (f_id f1)),
                  after = (handleUI False (f1 \<lparr> validationResult := Some (Errors [?e]) \<rparr>))
                            \<lparr> lastValidationState := Some False \<rparr>,
                  trace = ws \<rparr>"
      by (simp add: seq r1 finalizeValidationResult_def finalize_catch_def instanceof_Error_def t1)
    have s2: "whenValidate False pg fresh f
              = \<lparr> settled = Rejected (FieldRef (f_id f1)),
                  after = (handleUI False (f1 \<lparr> validationResult := Some (Errors (rejections ps)) \<rparr>))
                            \<lparr> lastValidationState := Some False \<rparr>,
                  trace = w' \<rparr>"
      using False
      by (simp add: conc Utils_all_def finalizeValidationResult_def finalize_catch_def
          instanceof_Error_def t2)
    have "?e \<in> set (filter is_required_error (rejections ps)
                    @ filter (\<lambda>e. \<not> is_required_error e) (rejections ps))"
      using he by auto
    then show ?thesis
      using False by (auto simp: s1 s2 handleUI_def)
  qed
qed

text \<open>
  C1, as amended. Predicates are functions of their arguments here, which is the claim's
  hypothesis that none has an observable side effect. For every field, page and value,
  the evaluation resolves under the sequential short-circuit strategy iff it resolves
  under the concurrent exhaustive one, and the same holds for every group, whose children
  are evaluated under the same strategy. The constraints the sequential strategy starts
  are a prefix of those the concurrent one starts; when the verdict is valid the two
  evaluations are the same altogether: same value, same state of the field, same
  constraints started, same log. When no constraint of the field throws, the promise
  settles the same way under both strategies, with the same value or the same reason, and
  the field is left in the same state but for the errors it records: of an evaluation
  that reached the constraints and failed, the sequential strategy records the first
  failure, which is one of those the concurrent strategy records.
\<close>

theorem strategy_equivalence:
  "is_valid (settled (whenValidate True pg fresh f)) = is_valid (settled (whenValidate False pg fresh f))
   \<and> prefix (started (trace (whenValidate True pg fresh f)))
            (started (trace (whenValidate False pg fresh f)))
   \<and> (is_valid (settled (whenValidate False pg fresh f))
        \<longrightarrow> whenValidate True pg fresh f = whenValidate False pg fresh f)
   \<and> is_valid (settled (fst (whenValidateGroup True pg fresh g)))
       = is_valid (settled (fst (whenValidateGroup False pg fresh g)))
   \<and> (throws_none f
        \<longrightarrow> settled (whenValidate True pg fresh f) = settled (whenValidate False pg fresh f)
            \<and> (after (whenValidate True pg fresh f)) \<lparr> validationResult := x \<rparr>
              = (after (whenValidate False pg fresh f)) \<lparr> validationResult := x \<rparr>
            \<and> (reaches_hook pg (elem_value f) f
                  \<and> \<not> is_valid (settled (whenValidate False pg fresh f))
                 \<longrightarrow> (\<exists>e es. validationResult (after (whenValidate True pg fresh f))
                               = Some (Errors [e])
                          \<and> validationResult (after (whenValidate False pg fresh f))
                               = Some (Errors es)
                          \<and> e \<in> set es)))"
  using whenValidate_verdict [of pg fresh f] whenValidate_started_prefix [of pg fresh f]
    whenValidate_valid_same [of pg fresh f] whenValidateGroup_verdict [of pg fresh g]
    whenValidate_no_throw [of f pg fresh x]
  by blast

lemma whenValidate_reaches:
  assumes "reaches_hook pg (elem_value f) f"
  shows "whenValidate stop pg fresh f
         = validate_own stop (elem_value f)
             (f \<lparr> validationResult := Some (Errors []),
                  lastValidatedValue := cloneValue fresh (elem_value f) \<rparr>)
             \<lparr> started = [], logged = snd (shouldValidate pg f) \<rparr>"
proof -
  from assms before_hook_reaches [of pg fresh "elem_value f" f]
  obtain f1 w where bh: "before_hook pg fresh (elem_value f) f = Inr (f1, w)" by auto
  from before_hook_Inr(1,2,3) [OF bh]
  have "f1 = f \<lparr> validationResult := Some (Errors []),
                  lastValidatedValue := cloneValue fresh (elem_value f) \<rparr>"
    and "w = \<lparr> started = [], logged = snd (shouldValidate pg f) \<rparr>"
    by simp_all
  with bh show ?thesis by (simp add: whenValidate_def)
qed

lemma code_field_reaches:
  "reaches_hook example_page (JStr ''xyz'') (code_field ''xyz'')"
  "reaches_hook example_page (JStr ''ABC1'') (code_field ''ABC1'')"
  by (simp_all add: reaches_hook_def code_field_def new_field_def cached_def areEquals_def
      is_checkbox_or_radio_def to_lower_def shouldValidate_def empty_js_def trim_names)

lemma code_field_sorted:
  "sorted_constraints
     ((code_field v) \<lparr> validationResult := a, lastValidatedValue := b \<rparr>)
   = [startsWith_constraint, nospaces_constraint]"
  by (simp add: sorted_constraints_def code_field_def new_field_def startsWith_constraint_def
      nospaces_constraint_def)

lemma code_constraints:
  "validateConstraint startsWith_constraint (JStr ''xyz'') JUndef
   = (Returned (Rejected (ValidationError ''startsWith'' (JStr ''Value must start with ABC''))), [])"
  "validateConstraint startsWith_constraint (JStr ''ABC1'') JUndef = (Returned (Fulfilled JUndef), [])"
  "validateConstraint nospaces_constraint (JStr ''xyz'') JUndef = (Returned (Fulfilled JUndef), [])"
  "validateConstraint nospaces_constraint (JStr ''ABC1'') JUndef = (Returned (Fulfilled JUndef), [])"
  by (simp_all add: validateConstraint_def startsWith_constraint_def nospaces_constraint_def
      validate_def startsWith_validator_def Validator_def startsWith_spec_def startsWith_fn_def
      nospaces_fn_def trim_names reject_def js_or_def replace_ps_def)

lemma code_field_traces:
  "started (trace (whenValidate True example_page 0 (code_field ''xyz''))) = [''startsWith'']"
  "started (trace (whenValidate False example_page 0 (code_field ''xyz'')))
   = [''startsWith'', ''nospaces'']"
  "settled (whenValidate False example_page 0 (code_field ''xyz'')) = Rejected (FieldRef ''code'')"
  "settled (whenValidate False example_page 0 (code_field ''ABC1'')) = Fulfilled (JStr ''ABC1'')"
proof -
  have r: "reaches_hook example_page (elem_value (code_field ''xyz'')) (code_field ''xyz'')"
    "reaches_hook example_page (elem_value (code_field ''ABC1'')) (code_field ''ABC1'')"
    using code_field_reaches by (simp_all add: code_field_def new_field_def)
  have ev: "elem_value (code_field v) = JStr v" "customErrorMessage (code_field v) = JUndef"
    "f_id (code_field v) = ''code''" for v
    by (simp_all add: code_field_def new_field_def)
  have nm: "c_name startsWith_constraint = ''startsWith''" "c_name nospaces_constraint = ''nospaces''"
    by (simp_all add: startsWith_constraint_def nospaces_constraint_def)
  show "started (trace (whenValidate True example_page 0 (code_field ''xyz''))) = [''startsWith'']"
    by (simp add: whenValidate_reaches [OF r(1)] validate_own_started run_items_def
        buildValidationsFor_def code_field_sorted constraint_item_def ev code_constraints nm)
  show "started (trace (whenValidate False example_page 0 (code_field ''xyz'')))
        = [''startsWith'', ''nospaces'']"
    by (simp add: whenValidate_reaches [OF r(1)] validate_own_started run_items_def
        buildValidationsFor_def code_field_sorted constraint_item_def ev code_constraints nm)
  show "settled (whenValidate False example_page 0 (code_field ''xyz'')) = Rejected (FieldRef ''code'')"
    by (simp add: whenValidate_reaches [OF r(1)] validate_own_def finalizeValidationResult_def run_items_def
        buildValidationsFor_def code_field_sorted constraint_item_def ev code_constraints nm
        Utils_all_def finalize_catch_def handleUI_throws_def instanceof_Error_def)
  show "settled (whenValidate False example_page 0 (code_field ''ABC1'')) = Fulfilled (JStr ''ABC1'')"
    by (simp add: whenValidate_reaches [OF r(2)] validate_own_def finalizeValidationResult_def run_items_def
        buildValidationsFor_def code_field_sorted constraint_item_def ev code_constraints nm
        Utils_all_def finalize_then_def)
qed

lemma code_field_throws_none: "throws_none (code_field ''xyz'')"
  using startsWith_constraint_returns [of "JStr ''xyz''" JUndef]
  by (auto simp: throws_none_def code_field_def new_field_def code_constraints)

theorem strategy_equivalence_witness:
  "throws_none (code_field ''xyz'')
   \<and> settled (whenValidate True example_page 0 (code_field ''xyz''))
       = settled (whenValidate False example_page 0 (code_field ''xyz''))
   \<and> is_valid (settled (whenValidate False example_page 0 (code_field ''ABC1'')))
   \<and> whenValidate True example_page 0 (code_field ''ABC1'')
       = whenValidate False example_page 0 (code_field ''ABC1'')
   \<and> \<not> is_valid (settled (whenValidate True example_page 0 (code_field ''xyz'')))
   \<and> \<not> is_valid (settled (whenValidate False example_page 0 (code_field ''xyz'')))
   \<and> started (trace (whenValidate True example_page 0 (code_field ''xyz''))) = [''startsWith'']
   \<and> started (trace (whenValidate False example_page 0 (code_field ''xyz'')))
       = [''startsWith'', ''nospaces'']"
proof -
  have v: "is_valid (settled (whenValidate False example_page 0 (code_field ''ABC1'')))"
    by (simp add: code_field_traces)
  have n: "\<not> is_valid (settled (whenValidate False example_page 0 (code_field ''xyz'')))"
    by (simp add: code_field_traces)
  from strategy_equivalence [of example_page 0 "code_field ''ABC1''"] v
  have a: "whenValidate True example_page 0 (code_field ''ABC1'')
           = whenValidate False example_page 0 (code_field ''ABC1'')"
    by blast
  from strategy_equivalence [of example_page 0 "code_field ''xyz''"] n
  have b: "\<not> is_valid (settled (whenValidate True example_page 0 (code_field ''xyz'')))"
    by blast
  from strategy_equivalence [of example_page 0 "code_field ''xyz''"] code_field_throws_none
  have c: "settled (whenValidate True example_page 0 (code_field ''xyz''))
           = settled (whenValidate False example_page 0 (code_field ''xyz''))"
    by blast
  from v a b n c code_field_throws_none code_field_traces(1,2) show ?thesis by simp
qed

lemma picky_constraint_evaluation:
  "validateConstraint picky_constraint (JStr ''ok'') JUndef = (Returned (Fulfilled JUndef), [])"
  "validateConstraint picky_constraint (JStr ''bad'') JUndef
   = (Thrown (JError ''v.code is undefined''), [ConsoleError (JError ''v.code is undefined'')])"
  by (simp_all add: validateConstraint_def picky_constraint_def validate_def Validator_def picky_fn_def)

lemma text_field_gate:
  "\<not> is_checkbox_or_radio ''text''" "\<not> empty_js (JStr ''ok'')" "\<not> empty_js (JStr ''bad'')"
  by (simp_all add: is_checkbox_or_radio_def to_lower_def empty_js_def trim_printable)

lemma picky_field_state:
  "picky_field
   = (new_field ''code'' ''text'' (JStr ''bad'') [picky_constraint])
       \<lparr> lastValidatedValue := JStr ''ok'', lastValidationState := Some True,
         validationResult := None, isValid := True \<rparr>"
  using text_field_gate
  by (simp add: picky_field_def whenValidate_def before_hook_def cached_def areEquals_def
      new_field_def Let_def shouldValidate_def isRequired_def validate_own_def
      finalizeValidationResult_def run_items_def buildValidationsFor_def sorted_constraints_def
      constraint_item_def picky_constraint_evaluation finalize_then_def handleUI_def)

lemma picky_field_second:
  "whenValidate True example_page 11 picky_field
   = \<lparr> settled = Rejected (FieldRef ''code''),
       after = (new_field ''code'' ''text'' (JStr ''bad'') [picky_constraint])
                 \<lparr> lastValidatedValue := JStr ''bad'', lastValidationState := Some False,
                   validationResult := Some (Errors [Raw (JError ''v.code is undefined'')]),
                   isValid := False, failedOnce := True \<rparr>,
       trace = \<lparr> started = [''picky''], logged = [ConsoleError (JError ''v.code is undefined'')] \<rparr> \<rparr>"
  "whenValidate False example_page 11 picky_field
   = \<lparr> settled = Rejected (Raw (JError ''v.code is undefined'')),
       after = (new_field ''code'' ''text'' (JStr ''bad'') [picky_constraint])
                 \<lparr> lastValidatedValue := JStr ''bad'', lastValidationState := Some True,
                   validationResult := Some (Errors []), isValid := True \<rparr>,
       trace = \<lparr> started = [''picky''], logged = [ConsoleError (JError ''v.code is undefined'')] \<rparr> \<rparr>"
proof -
  have nm: "c_name picky_constraint = ''picky''" "c_name picky_constraint \<noteq> ''required''"
    by (simp_all add: picky_constraint_def)
  show "whenValidate True example_page 11 picky_field
   = \<lparr> settled = Rejected (FieldRef ''code''),
       after = (new_field ''code'' ''text'' (JStr ''bad'') [picky_constraint])
                 \<lparr> lastValidatedValue := JStr ''bad'', lastValidationState := Some False,
                   validationResult := Some (Errors [Raw (JError ''v.code is undefined'')]),
                   isValid := False, failedOnce := True \<rparr>,
       trace = \<lparr> started = [''picky''], logged = [ConsoleError (JError ''v.code is undefined'')] \<rparr> \<rparr>"
    using text_field_gate nm
    by (simp add: picky_field_state whenValidate_def before_hook_def cached_def areEquals_def
        new_field_def Let_def shouldValidate_def isRequired_def validate_own_def
        finalizeValidationResult_def run_items_def buildValidationsFor_def sorted_constraints_def
        constraint_item_def picky_constraint_evaluation finalize_catch_def instanceof_Error_def
        handleUI_throws_def is_required_error_def handleUI_def)
  show "whenValidate False example_page 11 picky_field
   = \<lparr> settled = Rejected (Raw (JError ''v.code is undefined'')),
       after = (new_field ''code'' ''text'' (JStr ''bad'') [picky_constraint])
                 \<lparr> lastValidatedValue := JStr ''bad'', lastValidationState := Some True,
                   validationResult := Some (Errors []), isValid := True \<rparr>,
       trace = \<lparr> started = [''picky''], logged = [ConsoleError (JError ''v.code is undefined'')] \<rparr> \<rparr>"
    using text_field_gate nm
    by (simp add: picky_field_state whenValidate_def before_hook_def cached_def areEquals_def
        new_field_def Let_def shouldValidate_def isRequired_def validate_own_def
        finalizeValidationResult_def run_items_def buildValidationsFor_def sorted_constraints_def
        constraint_item_def picky_constraint_evaluation)
qed

text \<open>
  The claim as stated fails: on a value for which the predicate throws, the two
  strategies start the same evaluation and differ in the rest. The sequential strategy
  rejects with the field and caches it as invalid; the concurrent one rejects with the
  exception and leaves the state as it was, valid. Evaluated once more with the value
  unchanged, the field rejects under the first and resolves under the second.
\<close>

theorem strategies_differ_on_exception:
  "started (trace (whenValidate True example_page 11 picky_field)) = [''picky'']
   \<and> started (trace (whenValidate False example_page 11 picky_field)) = [''picky'']
   \<and> settled (whenValidate True example_page 11 picky_field) = Rejected (FieldRef ''code'')
   \<and> settled (whenValidate False example_page 11 picky_field)
       = Rejected (Raw (JError ''v.code is undefined''))
   \<and> lastValidationState (after (whenValidate True example_page 11 picky_field)) = Some False
   \<and> lastValidationState (after (whenValidate False example_page 11 picky_field)) = Some True
   \<and> settled (whenValidate True example_page 12 (after (whenValidate True example_page 11 picky_field)))
       = Rejected (FieldRef ''code'')
   \<and> settled (whenValidate False example_page 12 (after (whenValidate False example_page 11 picky_field)))
       = Fulfilled (JStr ''bad'')"
proof -
  have "settled (whenValidate True example_page 12 (after (whenValidate True example_page 11 picky_field)))
        = Rejected (FieldRef ''code'')"
    unfolding picky_field_second(1)
    by (simp add: whenValidate_def before_hook_def cached_def areEquals_def new_field_def)
  moreover
  have "settled (whenValidate False example_page 12 (after (whenValidate False example_page 11 picky_field)))
        = Fulfilled (JStr ''bad'')"
    unfolding picky_field_second(2)
    by (simp add: whenValidate_def before_hook_def cached_def areEquals_def new_field_def)
  ultimately show ?thesis
    by (simp add: picky_field_second)
qed

text \<open>A predicate that throws \<open>null\<close>: under the sequential strategy the rejection
  handler itself throws, and the state is left unknown.\<close>

lemma thrown_null:
  "settled (whenValidate True example_page 0 (new_field ''code'' ''text'' (JStr ''ok'') [null_constraint]))
   = Rejected (Raw (JError ''Cannot read properties of null (reading 'assert')''))"
  "lastValidationState
     (after (whenValidate True example_page 0 (new_field ''code'' ''text'' (JStr ''ok'') [null_constraint])))
   = None"
  "settled (whenValidate False example_page 0 (new_field ''code'' ''text'' (JStr ''ok'') [null_constraint]))
   = Rejected (Raw JNull)"
proof -
  have vc: "validateConstraint null_constraint (JStr ''ok'') JUndef = (Thrown JNull, [ConsoleError JNull])"
    by (simp add: validateConstraint_def null_constraint_def validate_def Validator_def null_fn_def)
  have nm: "c_name null_constraint \<noteq> ''required''"
    by (simp add: null_constraint_def)
  show "settled (whenValidate True example_page 0 (new_field ''code'' ''text'' (JStr ''ok'') [null_constraint]))
   = Rejected (Raw (JError ''Cannot read properties of null (reading 'assert')''))"
    "lastValidationState
     (after (whenValidate True example_page 0 (new_field ''code'' ''text'' (JStr ''ok'') [null_constraint])))
   = None"
    using text_field_gate nm
    by (simp_all add: whenValidate_def before_hook_def cached_def areEquals_def
        new_field_def Let_def shouldValidate_def isRequired_def validate_own_def
        finalizeValidationResult_def run_items_def buildValidationsFor_def sorted_constraints_def
        constraint_item_def vc finalize_catch_def instanceof_Error_def
        handleUI_throws_def is_required_error_def)
  show "settled (whenValidate False example_page 0 (new_field ''code'' ''text'' (JStr ''ok'') [null_constraint]))
   = Rejected (Raw JNull)"
    using text_field_gate nm
    by (simp add: whenValidate_def before_hook_def cached_def areEquals_def
        new_field_def Let_def shouldValidate_def isRequired_def validate_own_def
        finalizeValidationResult_def run_items_def buildValidationsFor_def sorted_constraints_def
        constraint_item_def vc)
qed

subsection \<open>The cache and deep equality\<close>

lemma anyFilled_passes:
  "validateConstraint anyFilled_constraint (JArr i [JArr j [JStr ''a'', JStr ''b'']]) JUndef
   = (Returned (Fulfilled JUndef), [])"
  by (simp add: validateConstraint_def anyFilled_constraint_def validate_def Validator_def
      anyFilled_fn_def)

lemma group_field_reaches:
  "reaches_hook example_page (JArr i [JArr j [JStr ''a'', JStr ''b'']])
     ((new_field ''tags'' [] JUndef [anyFilled_constraint])
        \<lparr> lastValidatedValue := JArr 11 [JArr 2 [JStr ''a'', JStr ''b'']],
          lastValidationState := st, validationResult := vr, isValid := iv \<rparr>)
   = (j \<noteq> 2 \<or> st = None)"
  by (auto simp: reaches_hook_def new_field_def cached_def areEquals_def not_checkbox_or_radio_Nil
      shouldValidate_def empty_js_def trim_names)

lemma tags_first:
  "after (fst (whenValidateGroup True example_page 10 (tags_group (JArr 2 [JStr ''a'', JStr ''b'']))))
   = \<lparr> g_field = (new_field ''tags'' [] JUndef [anyFilled_constraint])
          \<lparr> lastValidatedValue := JArr 11 [JArr 2 [JStr ''a'', JStr ''b'']],
            lastValidationState := Some True, validationResult := None, isValid := True \<rparr>,
       children = [(new_field ''tags_list'' ''select-multiple'' (JArr 2 [JStr ''a'', JStr ''b'']) [])
          \<lparr> lastValidatedValue := JArr 12 [JStr ''a'', JStr ''b''],
            lastValidationState := Some True, validationResult := Some (Errors []) \<rparr>],
       multipleType = None \<rparr>"
  by (simp add: whenValidateGroup_def getValue_def tags_group_def new_field_def before_hook_def
      cached_def areEquals_def not_checkbox_or_radio_Nil is_checkbox_or_radio_def to_lower_def
      shouldValidate_def empty_js_def trim_names isRequired_def anyFilled_constraint_def
      preValidate_def needsValidation_def run_items_def child_item_def whenValidate_def
      resolveAsValid_def no_trace_def validate_own_def finalizeValidationResult_def buildValidationsFor_def
      sorted_constraints_def constraint_item_def validateConstraint_def validate_def Validator_def
      anyFilled_fn_def finalize_then_def handleUI_def Let_def)


lemma tags_second_state:
  "tags_second
   = \<lparr> g_field = (new_field ''tags'' [] JUndef [anyFilled_constraint])
          \<lparr> lastValidatedValue := JArr 11 [JArr 2 [JStr ''a'', JStr ''b'']],
            lastValidationState := Some True, validationResult := None, isValid := True \<rparr>,
       children = [(new_field ''tags_list'' ''select-multiple'' (JArr 7 [JStr ''a'', JStr ''b'']) [])
          \<lparr> lastValidatedValue := JArr 12 [JStr ''a'', JStr ''b''],
            lastValidationState := Some True, validationResult := Some (Errors []) \<rparr>],
       multipleType = None \<rparr>"
  by (simp add: tags_second_def tags_first reread_def new_field_def)

text \<open>
  C3, at an input where the code departs from it. The group \<open>tags_second\<close> was
  evaluated and is cached as valid; its value is read again and is deep-equal to the last
  evaluated value. \<open>Utils.areEquals\<close> compares the inner arrays by reference, the answer
  is not taken from the cache, and the group's constraint is evaluated again.
\<close>

theorem nested_value_cache_miss:
  "deep_equal (getValue 20 tags_second) (lastValidatedValue (g_field tags_second))
   \<and> lastValidationState (g_field tags_second) = Some True
   \<and> \<not> cached (g_field tags_second) (getValue 20 tags_second)
   \<and> started (trace (fst (whenValidateGroup True example_page 20 tags_second))) = [''anyFilled'']"
  by (simp add: tags_second_state deep_equal_def
      whenValidateGroup_def getValue_def new_field_def before_hook_def
      cached_def areEquals_def not_checkbox_or_radio_Nil is_checkbox_or_radio_def to_lower_def
      shouldValidate_def empty_js_def trim_names isRequired_def anyFilled_constraint_def
      preValidate_def needsValidation_def run_items_def child_item_def whenValidate_def
      resolveAsValid_def no_trace_def validate_own_def finalizeValidationResult_def buildValidationsFor_def
      sorted_constraints_def constraint_item_def validateConstraint_def validate_def Validator_def
      anyFilled_fn_def finalize_then_def handleUI_def Let_def)

text \<open>On the other values the comparison of the cache is deep equality, and an unchanged
  value with a known state is answered from the cache with no constraint started.\<close>

lemma strict_eq_prim:
  assumes "\<not> isArray x" and "(case x of JObj _ _ \<Rightarrow> False | _ \<Rightarrow> True)"
  shows "strict_eq x y = (strip_ids x = strip_ids y)"
  using assms by (cases x; cases y) auto

lemma arraysEqual_flat:
  assumes "list_all (\<lambda>x. \<not> isArray x \<and> (case x of JObj _ _ \<Rightarrow> False | _ \<Rightarrow> True)) xs"
  shows "(length xs = length ys \<and> list_all (\<lambda>(v, w). strict_eq v w) (zip xs ys))
         = (map strip_ids xs = map strip_ids ys)"
  using assms
proof (induction xs arbitrary: ys)
  case Nil
  then show ?case by auto
next
  case (Cons x xs)
  show ?case
  proof (cases ys)
    case Nil
    then show ?thesis by simp
  next
    case (Cons y ys')
    with Cons.prems Cons.IH [of ys'] strict_eq_prim [of x y] show ?thesis
      by auto
  qed
qed

lemma areEquals_flat:
  assumes "flat a"
  shows "areEquals a b = deep_equal a b"
proof (cases a)
  case (JArr i xs)
  with assms have xs: "list_all (\<lambda>x. \<not> isArray x \<and> (case x of JObj _ _ \<Rightarrow> False | _ \<Rightarrow> True)) xs"
    by simp
  show ?thesis
  proof (cases b)
    case (JArr j ys)
    with \<open>a = JArr i xs\<close> arraysEqual_flat [OF xs, of ys] show ?thesis
      by (simp add: areEquals_def deep_equal_def)
  qed (simp_all add: JArr areEquals_def deep_equal_def)
next
  case (JObj i kvs)
  with assms show ?thesis by simp
qed (cases b; simp add: areEquals_def deep_equal_def)+

lemma flat_value_cache_hit:
  assumes "flat (elem_value f)" and "deep_equal (elem_value f) (lastValidatedValue f)"
    and "lastValidationState f \<noteq> None"
  shows "whenValidate stop pg fresh f
         = \<lparr> settled = (if lastValidationState f = Some True then Fulfilled (elem_value f)
                         else Rejected (FieldRef (f_id f))),
             after = f, trace = \<lparr> started = [], logged = [] \<rparr> \<rparr>"
proof -
  have "cached f (elem_value f)"
    using assms by (simp add: cached_def areEquals_flat)
  then show ?thesis by (rule cached_answer)
qed

end
